theory Spec2Isabelle
  imports Main
begin

section \<open>Host objects and the state of a page\<close>

text \<open>
  EagleJS is a thin layer over the browser's document object model. The library's own
  code is embedded function by function; the browser is the environment it runs in. The
  tree structure of the document (parents, child lists, node creation, cloning and
  insertion) is modelled concretely below, following the DOM standard. The selector
  engine, the HTML parser and serialiser, \<open>textContent\<close> and the rule for
  attribute names are taken as parameters (the record \<open>host\<close>), so every general
  theorem holds for any implementation of them.

  Strings are lists of 8-bit code units (the Latin-1 range of JavaScript's UTF-16 code
  units). A JavaScript exception is a value \<open>Inl e\<close>; a call that returns yields
  \<open>Inr\<close>.
\<close>

type_synonym ref = nat
type_synonym cref = nat
type_synonym listener = nat

text \<open>
  A JavaScript value, as far as the library inspects it: \<open>null\<close>, \<open>undefined\<close>, any
  other primitive (a number, a string, a boolean), or a reference to an object.
\<close>

datatype jsval = JNull | JUndefined | JPrimitive | JObj ref

text \<open>
  The exceptions of the host. \<open>IllFormedTree\<close> stands for a walk over a tree that is
  not one (a cycle, a child that is no object), which no browser state contains.
\<close>

datatype error =
  HierarchyRequestError | NotFoundError | SyntaxError | InvalidCharacterError | TypeError
  | IllFormedTree

text \<open>
  An object of the host. \<open>nodeType\<close> is 0 for an object without that property (a
  window, another event target, a plain object); for such an object \<open>eventTarget\<close>
  says whether it exposes \<open>addEventListener\<close>. Every node is an event target. The
  token list of the \<open>class\<close> attribute and the \<open>data-*\<close> entries are held in
  \<open>classList\<close> and \<open>dataset\<close>; \<open>attributes\<close> holds the other attributes.
\<close>

record hobject =
  nodeType :: nat
  eventTarget :: bool
  parentNode :: "ref option"
  childNodes :: "ref list"
  localName :: string
  attributes :: "(string \<times> string) list"
  classList :: "string list"
  dataset :: "(string \<times> string) list"
  nodeData :: string
  readyState :: string
  listeners :: "(string \<times> listener) list"

text \<open>
  The host's state: the objects, the next free reference, the global \<open>document\<close>,
  the queue of callbacks scheduled by \<open>setTimeout\<close>, and the log of listener
  invocations performed so far.
\<close>

record hstate =
  objects :: "ref \<Rightarrow> hobject option"
  nextRef :: ref
  document :: ref
  timers :: "listener list"
  calls :: "listener list"

text \<open>
  The program state: the host, and the EagleJS instances (arrays of item references)
  allocated so far. A method receives the address \<open>this\<close> of its receiver.
\<close>

record state =
  hst :: hstate
  colls :: "cref \<Rightarrow> ref list"
  nextColl :: cref

text \<open>The parts of the browser that are parameters of the model.\<close>

record host =
  host_matches :: "hstate \<Rightarrow> ref \<Rightarrow> string \<Rightarrow> error + bool"
  host_querySelectorAll :: "hstate \<Rightarrow> ref \<Rightarrow> string \<Rightarrow> error + ref list"
  host_closest :: "hstate \<Rightarrow> ref \<Rightarrow> string \<Rightarrow> error + ref option"
  host_parse_body :: "string \<Rightarrow> hstate \<Rightarrow> ref \<times> hstate"
  host_createHTMLDocument :: "hstate \<Rightarrow> ref \<times> hstate"
  host_get_innerHTML :: "hstate \<Rightarrow> ref \<Rightarrow> string"
  host_set_innerHTML :: "ref \<Rightarrow> string \<Rightarrow> hstate \<Rightarrow> hstate"
  host_get_textContent :: "hstate \<Rightarrow> ref \<Rightarrow> string option"
  host_set_textContent :: "ref \<Rightarrow> string \<Rightarrow> hstate \<Rightarrow> hstate"
  host_attr_name :: "string \<Rightarrow> string option"

subsection \<open>Reading the tree\<close>

definition node_type :: "hstate \<Rightarrow> ref \<Rightarrow> nat" where
  "node_type h r = (case objects h r of None \<Rightarrow> 0 | Some ob \<Rightarrow> nodeType ob)"

definition parent_of :: "hstate \<Rightarrow> ref \<Rightarrow> ref option" where
  "parent_of h r = (case objects h r of None \<Rightarrow> None | Some ob \<Rightarrow> parentNode ob)"

definition child_nodes :: "hstate \<Rightarrow> ref \<Rightarrow> ref list" where
  "child_nodes h r = (case objects h r of None \<Rightarrow> [] | Some ob \<Rightarrow> childNodes ob)"

text \<open>\<open>node.nextSibling\<close>: the child of the parent that follows the node.\<close>

definition nextSibling :: "hstate \<Rightarrow> ref \<Rightarrow> ref option" where
  "nextSibling h r =
     (case parent_of h r of
        None \<Rightarrow> None
      | Some p \<Rightarrow>
          (case dropWhile (\<lambda>c. c \<noteq> r) (child_nodes h p) of
             _ # n # _ \<Rightarrow> Some n
           | _ \<Rightarrow> None))"

definition firstChild :: "hstate \<Rightarrow> ref \<Rightarrow> ref option" where
  "firstChild h r = (case child_nodes h r of [] \<Rightarrow> None | c # _ \<Rightarrow> Some c)"

text \<open>\<open>parent.children\<close>: the child nodes that are elements.\<close>

definition element_children :: "hstate \<Rightarrow> ref \<Rightarrow> ref list" where
  "element_children h r = filter (\<lambda>c. node_type h c = 1) (child_nodes h r)"

text \<open>
  The JavaScript test \<open>'name' in item\<close> for the property names the typed variant
  probes. The host's standard interfaces decide it: \<open>Node\<close> (any node type),
  \<open>Element\<close> (1), \<open>ParentNode\<close> (1, 9, 11), \<open>NonDocumentTypeChildNode\<close>
  (1, 3, 4, 7, 8) and \<open>Document\<close> (9). Objects that are not nodes expose none of
  these properties.
\<close>

datatype propname =
  P_classList | P_querySelector | P_querySelectorAll | P_children | P_setAttribute
  | P_getAttribute | P_cloneNode | P_closest | P_dataset | P_matches | P_innerHTML
  | P_nextElementSibling | P_previousElementSibling | P_parentNode | P_readyState
  | P_textContent

fun exposes :: "nat \<Rightarrow> propname \<Rightarrow> bool" where
  "exposes t P_parentNode = (t \<noteq> 0)"
| "exposes t P_cloneNode = (t \<noteq> 0)"
| "exposes t P_textContent = (t \<noteq> 0)"
| "exposes t P_classList = (t = 1)"
| "exposes t P_setAttribute = (t = 1)"
| "exposes t P_getAttribute = (t = 1)"
| "exposes t P_closest = (t = 1)"
| "exposes t P_dataset = (t = 1)"
| "exposes t P_matches = (t = 1)"
| "exposes t P_innerHTML = (t = 1)"
| "exposes t P_querySelector = (t \<in> {1, 9, 11})"
| "exposes t P_querySelectorAll = (t \<in> {1, 9, 11})"
| "exposes t P_children = (t \<in> {1, 9, 11})"
| "exposes t P_nextElementSibling = (t \<in> {1, 3, 4, 7, 8})"
| "exposes t P_previousElementSibling = (t \<in> {1, 3, 4, 7, 8})"
| "exposes t P_readyState = (t = 9)"

definition has_prop :: "propname \<Rightarrow> hstate \<Rightarrow> ref \<Rightarrow> bool" where
  "has_prop p h item = exposes (node_type h item) p"

subsection \<open>Capability predicates\<close>

text \<open>
  \<^verbatim>\<open>static isDOMItem (value) { return Boolean(value) && Boolean(value.addEventListener); }\<close>
\<close>

definition isDOMItem :: "hstate \<Rightarrow> jsval \<Rightarrow> bool" where
  "isDOMItem h v =
     (case v of
        JObj r \<Rightarrow>
          (case objects h r of
             None \<Rightarrow> False
           | Some ob \<Rightarrow> (if nodeType ob = 0 then eventTarget ob else True))
      | _ \<Rightarrow> False)"

text \<open>
  \<^verbatim>\<open>static isNode (value) { return Boolean(value) && Boolean(value.nodeType); }\<close>
  (legacy variant), and the predicates built on it.
\<close>

definition isNode :: "hstate \<Rightarrow> jsval \<Rightarrow> bool" where
  "isNode h v = (case v of JObj r \<Rightarrow> node_type h r \<noteq> 0 | _ \<Rightarrow> False)"

definition node_type_of :: "hstate \<Rightarrow> jsval \<Rightarrow> nat" where
  "node_type_of h v = (case v of JObj r \<Rightarrow> node_type h r | _ \<Rightarrow> 0)"

definition isChildNode :: "hstate \<Rightarrow> jsval \<Rightarrow> bool" where
  "isChildNode h v = (isNode h v \<and> node_type_of h v \<in> set [1, 3, 4, 7, 8, 10])"

definition isDocument :: "hstate \<Rightarrow> jsval \<Rightarrow> bool" where
  "isDocument h v = (isNode h v \<and> node_type_of h v = 9)"

definition isElement :: "hstate \<Rightarrow> jsval \<Rightarrow> bool" where
  "isElement h v = (isNode h v \<and> node_type_of h v = 1)"

definition isParentNode :: "hstate \<Rightarrow> jsval \<Rightarrow> bool" where
  "isParentNode h v = (isNode h v \<and> node_type_of h v \<in> set [1, 9, 11])"

section \<open>The collection: construction of instances, push and unshift\<close>

text \<open>
  \<open>super()\<close> in the constructor, and the species construction inside
  \<open>Array.prototype.filter\<close> and \<open>slice\<close>, allocate a new, empty instance.
\<close>

definition new_instance :: "state \<Rightarrow> cref \<times> state" where
  "new_instance s =
     (nextColl s, s\<lparr>colls := (colls s)(nextColl s := []), nextColl := Suc (nextColl s)\<rparr>)"

definition refs_of :: "jsval list \<Rightarrow> ref list" where
  "refs_of vs = concat (map (\<lambda>v. case v of JObj r \<Rightarrow> [r] | _ \<Rightarrow> []) vs)"

text \<open>\<open>this.includes(item)\<close> on an array of object references.\<close>

definition array_includes :: "ref list \<Rightarrow> jsval \<Rightarrow> bool" where
  "array_includes xs v = (case v of JObj r \<Rightarrow> r \<in> set xs | _ \<Rightarrow> False)"

text \<open>
  \<^verbatim>\<open>
  push (...items) {
    return super.push(...items.filter((item) => {
      return EagleJS.isDOMItem(item) && !this.includes(item);
    }));
  }\<close>
  The filter runs over all arguments before the native push appends anything, so every
  argument is compared with the receiver as it was at the call. The result is the new
  length.
\<close>

definition push :: "cref \<Rightarrow> jsval list \<Rightarrow> state \<Rightarrow> nat \<times> state" where
  "push this its s =
     (let kept = filter (\<lambda>item. isDOMItem (hst s) item \<and> \<not> array_includes (colls s this) item) its;
          arr = colls s this @ refs_of kept
      in (length arr, s\<lparr>colls := (colls s)(this := arr)\<rparr>))"

text \<open>
  \<^verbatim>\<open>
  unshift (...items) {
    return super.unshift(...items.filter((item) => {
      return EagleJS.isDOMItem(item) && !this.includes(item);
    }));
  }\<close>
\<close>

definition unshift :: "cref \<Rightarrow> jsval list \<Rightarrow> state \<Rightarrow> nat \<times> state" where
  "unshift this its s =
     (let kept = filter (\<lambda>item. isDOMItem (hst s) item \<and> \<not> array_includes (colls s this) item) its;
          arr = refs_of kept @ colls s this
      in (length arr, s\<lparr>colls := (colls s)(this := arr)\<rparr>))"

section \<open>The host's tree operations\<close>

definition upd_obj :: "ref \<Rightarrow> (hobject \<Rightarrow> hobject) \<Rightarrow> hstate \<Rightarrow> hstate" where
  "upd_obj r f h =
     (case objects h r of
        None \<Rightarrow> h
      | Some ob \<Rightarrow> h\<lparr>objects := (objects h)(r \<mapsto> f ob)\<rparr>)"

definition text_node :: "string \<Rightarrow> hobject" where
  "text_node str =
     \<lparr>nodeType = 3, eventTarget = True, parentNode = None, childNodes = [], localName = [],
      attributes = [], classList = [], dataset = [], nodeData = str, readyState = [],
      listeners = []\<rparr>"

text \<open>\<open>document.createTextNode(str)\<close>: a new, parentless text node.\<close>

definition createTextNode :: "string \<Rightarrow> hstate \<Rightarrow> ref \<times> hstate" where
  "createTextNode str h =
     (nextRef h,
      h\<lparr>objects := (objects h)(nextRef h \<mapsto> text_node str), nextRef := Suc (nextRef h)\<rparr>)"

text \<open>
  \<open>node.cloneNode(deep)\<close>. The copy has the node's type, name, attributes, classes,
  data entries and character data, no parent and no listeners. A deep clone copies the
  subtree; the walk is bounded by the number of references allocated, which is enough
  for every tree.
\<close>

definition copy_of :: "hobject \<Rightarrow> hobject" where
  "copy_of ob = ob\<lparr>parentNode := None, childNodes := [], listeners := []\<rparr>"

definition attach :: "ref \<Rightarrow> ref \<Rightarrow> hstate \<Rightarrow> hstate" where
  "attach p c h =
     upd_obj p (\<lambda>ob. ob\<lparr>childNodes := childNodes ob @ [c]\<rparr>)
       (upd_obj c (\<lambda>ob. ob\<lparr>parentNode := Some p\<rparr>) h)"

fun clone_tree :: "nat \<Rightarrow> hstate \<Rightarrow> ref \<Rightarrow> (ref \<times> hstate) option"
  and clone_children :: "nat \<Rightarrow> hstate \<Rightarrow> ref \<Rightarrow> ref list \<Rightarrow> hstate option" where
  "clone_tree 0 h n = None"
| "clone_tree (Suc k) h n =
     (case objects h n of
        None \<Rightarrow> None
      | Some ob \<Rightarrow>
          (case clone_children k
                  (h\<lparr>objects := (objects h)(nextRef h \<mapsto> copy_of ob), nextRef := Suc (nextRef h)\<rparr>)
                  (nextRef h) (childNodes ob) of
             None \<Rightarrow> None
           | Some h2 \<Rightarrow> Some (nextRef h, h2)))"
| "clone_children k h c [] = Some h"
| "clone_children k h c (x # xs) =
     (case clone_tree k h x of
        None \<Rightarrow> None
      | Some (cx, h1) \<Rightarrow> clone_children k (attach c cx h1) c xs)"

definition cloneNode :: "ref \<Rightarrow> bool \<Rightarrow> hstate \<Rightarrow> error + (ref \<times> hstate)" where
  "cloneNode n deep h =
     (if node_type h n = 0 then Inl TypeError
      else if deep then
        (case clone_tree (nextRef h) h n of None \<Rightarrow> Inl IllFormedTree | Some r \<Rightarrow> Inr r)
      else
        (case objects h n of
           None \<Rightarrow> Inl TypeError
         | Some ob \<Rightarrow>
             Inr (nextRef h,
                  h\<lparr>objects := (objects h)(nextRef h \<mapsto> copy_of ob), nextRef := Suc (nextRef h)\<rparr>)))"

text \<open>Is \<open>a\<close> the node \<open>x\<close> or one of its ancestors (at most \<open>k\<close> steps up)?\<close>

fun inclusive_ancestor :: "nat \<Rightarrow> hstate \<Rightarrow> ref \<Rightarrow> ref \<Rightarrow> bool" where
  "inclusive_ancestor 0 h a x = (x = a)"
| "inclusive_ancestor (Suc k) h a x =
     (x = a \<or> (case parent_of h x of None \<Rightarrow> False | Some p \<Rightarrow> inclusive_ancestor k h a p))"

text \<open>
  The constraints the DOM standard puts on the children of a document (step 6 of
  ``ensure pre-insertion validity''): at most one element and one doctype, the doctype
  first, no text.
\<close>

definition document_violation :: "hstate \<Rightarrow> ref \<Rightarrow> ref \<Rightarrow> ref option \<Rightarrow> bool" where
  "document_violation h parent node child =
     (let cs = child_nodes h parent;
          is_el = (\<lambda>c. node_type h c = 1);
          is_dt = (\<lambda>c. node_type h c = 10);
          preceding = (case child of None \<Rightarrow> cs | Some c \<Rightarrow> takeWhile (\<lambda>x. x \<noteq> c) cs);
          following = (case child of None \<Rightarrow> [] | Some c \<Rightarrow> drop 1 (dropWhile (\<lambda>x. x \<noteq> c) cs));
          child_is_dt = (case child of None \<Rightarrow> False | Some c \<Rightarrow> is_dt c);
          element_rule = (list_ex is_el cs \<or> child_is_dt \<or> list_ex is_dt following);
          own = child_nodes h node;
          nt = node_type h node
      in if nt = 11 then
           1 < length (filter is_el own) \<or> list_ex (\<lambda>c. node_type h c \<in> {3, 4}) own
           \<or> (length (filter is_el own) = 1 \<and> element_rule)
         else if nt = 1 then element_rule
         else if nt = 10 then list_ex is_dt cs \<or> list_ex is_el preceding
         else False)"

text \<open>``Ensure pre-insertion validity'' of \<open>node\<close> into \<open>parent\<close> before \<open>child\<close>.\<close>

definition insertion_error :: "hstate \<Rightarrow> ref \<Rightarrow> ref \<Rightarrow> ref option \<Rightarrow> error option" where
  "insertion_error h parent node child =
     (let pt = node_type h parent; nt = node_type h node
      in if pt \<notin> {1, 9, 11} then Some HierarchyRequestError
         else if inclusive_ancestor (nextRef h) h node parent then Some HierarchyRequestError
         else if (case child of None \<Rightarrow> False | Some c \<Rightarrow> parent_of h c \<noteq> Some parent)
           then Some NotFoundError
         else if nt \<notin> {1, 3, 4, 7, 8, 10, 11} then Some HierarchyRequestError
         else if (nt \<in> {3, 4} \<and> pt = 9) \<or> (nt = 10 \<and> pt \<noteq> 9) then Some HierarchyRequestError
         else if pt = 9 \<and> document_violation h parent node child then Some HierarchyRequestError
         else None)"

text \<open>Removing a node from its parent, and putting a parentless node before a child.\<close>

definition detach :: "ref \<Rightarrow> hstate \<Rightarrow> hstate" where
  "detach n h =
     (case parent_of h n of
        None \<Rightarrow> h
      | Some p \<Rightarrow>
          upd_obj p (\<lambda>ob. ob\<lparr>childNodes := removeAll n (childNodes ob)\<rparr>)
            (upd_obj n (\<lambda>ob. ob\<lparr>parentNode := None\<rparr>) h))"

definition place :: "ref \<Rightarrow> ref option \<Rightarrow> ref \<Rightarrow> hstate \<Rightarrow> hstate" where
  "place parent child n h =
     upd_obj parent
       (\<lambda>ob. ob\<lparr>childNodes :=
          (case child of
             None \<Rightarrow> childNodes ob @ [n]
           | Some c \<Rightarrow>
               takeWhile (\<lambda>x. x \<noteq> c) (childNodes ob) @ n # dropWhile (\<lambda>x. x \<noteq> c) (childNodes ob))\<rparr>)
       (upd_obj n (\<lambda>ob. ob\<lparr>parentNode := Some parent\<rparr>) h)"

text \<open>
  \<open>parent.insertBefore(node, child)\<close>, with \<open>child = None\<close> for \<open>null\<close>. A node that
  is its own reference child is put before its next sibling; a document fragment gives
  its children; a node that has a parent is moved.
\<close>

definition insertBefore :: "ref \<Rightarrow> ref \<Rightarrow> ref option \<Rightarrow> hstate \<Rightarrow> error + hstate" where
  "insertBefore parent node child h =
     (if node_type h node = 0 then Inl TypeError
      else
        (case insertion_error h parent node child of
           Some e \<Rightarrow> Inl e
         | None \<Rightarrow>
             (let reference = (if child = Some node then nextSibling h node else child);
                  ns = (if node_type h node = 11 then child_nodes h node else [node])
              in Inr (fold (\<lambda>n h'. place parent reference n (detach n h')) ns h))))"

text \<open>\<open>parent.appendChild(node)\<close>.\<close>

definition appendChild :: "ref \<Rightarrow> ref \<Rightarrow> hstate \<Rightarrow> error + hstate" where
  "appendChild parent node h = insertBefore parent node None h"

section \<open>Iteration over an instance\<close>

text \<open>
  \<open>Array.prototype.forEach\<close>: the length is read once, then every index below it that
  the array still has is visited, the element being read when its turn comes. The
  callbacks of the library close over local variables (\<open>first\<close>); the loop threads
  them as \<open>'a\<close>.
\<close>

fun forEach_from ::
  "nat list \<Rightarrow> cref \<Rightarrow> (ref \<Rightarrow> nat \<Rightarrow> 'a \<times> state \<Rightarrow> error + 'a \<times> state) \<Rightarrow> 'a \<times> state
     \<Rightarrow> error + 'a \<times> state" where
  "forEach_from [] c f acc = Inr acc"
| "forEach_from (k # ks) c f acc =
     (if k < length (colls (snd acc) c) then
        (case f (colls (snd acc) c ! k) k acc of
           Inl e \<Rightarrow> Inl e
         | Inr acc' \<Rightarrow> forEach_from ks c f acc')
      else forEach_from ks c f acc)"

definition forEach ::
  "cref \<Rightarrow> (ref \<Rightarrow> nat \<Rightarrow> 'a \<times> state \<Rightarrow> error + 'a \<times> state) \<Rightarrow> 'a \<times> state
     \<Rightarrow> error + 'a \<times> state" where
  "forEach c f acc = forEach_from [0..<length (colls (snd acc) c)] c f acc"

text \<open>\<open>this.slice()\<close> copies the receiver into a new instance; \<open>reverse()\<close> reverses in place.\<close>

definition slice :: "cref \<Rightarrow> state \<Rightarrow> cref \<times> state" where
  "slice this s =
     (let (c, s1) = new_instance s in (c, s1\<lparr>colls := (colls s1)(c := colls s this)\<rparr>))"

definition reverse :: "cref \<Rightarrow> state \<Rightarrow> state" where
  "reverse c s = s\<lparr>colls := (colls s)(c := rev (colls s c))\<rparr>"

section \<open>Content insertion: after, before, append, prepend\<close>

datatype content = CStr string | CNode ref

text \<open>
  \<^verbatim>\<open>
  const nodeArray = [];
  nodes.forEach((value) => {
    if (typeof value === 'string') {
      nodeArray.push(document.createTextNode(value));
    } else {
      nodeArray.push(value);
    }
  });\<close>
\<close>

fun materialize :: "content list \<Rightarrow> hstate \<Rightarrow> ref list \<times> hstate" where
  "materialize [] h = ([], h)"
| "materialize (CStr str # vs) h =
     (let (t, h1) = createTextNode str h; (ns, h2) = materialize vs h1 in (t # ns, h2))"
| "materialize (CNode n # vs) h =
     (let (ns, h1) = materialize vs h in (n # ns, h1))"

text \<open>
  \<^verbatim>\<open>
  nodeArray.forEach((node) => {
    parent.insertBefore(first ? node : node.cloneNode(true), anchor);
  });\<close>
\<close>

fun insert_nodes :: "bool \<Rightarrow> ref \<Rightarrow> ref option \<Rightarrow> ref list \<Rightarrow> hstate \<Rightarrow> error + hstate" where
  "insert_nodes first parent anchor [] h = Inr h"
| "insert_nodes first parent anchor (node # nodes) h =
     (if first then
        (case insertBefore parent node anchor h of
           Inl e \<Rightarrow> Inl e
         | Inr h1 \<Rightarrow> insert_nodes first parent anchor nodes h1)
      else
        (case cloneNode node True h of
           Inl e \<Rightarrow> Inl e
         | Inr (c, h1) \<Rightarrow>
             (case insertBefore parent c anchor h1 of
                Inl e \<Rightarrow> Inl e
              | Inr h2 \<Rightarrow> insert_nodes first parent anchor nodes h2)))"

text \<open>A loop body that works on the host only, lifted to the program state.\<close>

definition on_host ::
  "('a \<times> hstate \<Rightarrow> error + 'a \<times> hstate) \<Rightarrow> 'a \<times> state \<Rightarrow> error + 'a \<times> state" where
  "on_host f acc =
     (case f (fst acc, hst (snd acc)) of
        Inl e \<Rightarrow> Inl e
      | Inr (a, h) \<Rightarrow> Inr (a, (snd acc)\<lparr>hst := h\<rparr>))"

text \<open>
  \<^verbatim>\<open>
  after (...nodes) {
    const nodeArray = []; ...
    let first = true;
    this.slice().reverse().forEach((item) => {
      if (EagleJS.isChildNode(item) && item.parentNode !== null) {
        const parent = item.parentNode;
        const next = item.nextSibling;
        nodeArray.forEach((node) => {
          parent.insertBefore(first ? node : node.cloneNode(true), next);
        });
        first = false;
      }
    });
    return this;
  }\<close>
  The typed and the legacy variant have the same text.
\<close>

definition after_eligible :: "hstate \<Rightarrow> ref \<Rightarrow> bool" where
  "after_eligible h item = (isChildNode h (JObj item) \<and> parent_of h item \<noteq> None)"

definition after_put :: "ref list \<Rightarrow> ref \<Rightarrow> bool \<Rightarrow> hstate \<Rightarrow> error + hstate" where
  "after_put nodeArray item first h =
     (case parent_of h item of
        None \<Rightarrow> Inr h
      | Some parent \<Rightarrow> insert_nodes first parent (nextSibling h item) nodeArray h)"

definition distribute_step ::
  "(hstate \<Rightarrow> ref \<Rightarrow> bool) \<Rightarrow> (ref \<Rightarrow> bool \<Rightarrow> hstate \<Rightarrow> error + hstate) \<Rightarrow> ref
     \<Rightarrow> bool \<times> hstate \<Rightarrow> error + bool \<times> hstate" where
  "distribute_step eligible put item acc =
     (if eligible (snd acc) item then
        (case put item (fst acc) (snd acc) of
           Inl e \<Rightarrow> Inl e
         | Inr h \<Rightarrow> Inr (False, h))
      else Inr acc)"

definition distribute ::
  "(hstate \<Rightarrow> ref \<Rightarrow> bool) \<Rightarrow> (ref list \<Rightarrow> ref \<Rightarrow> bool \<Rightarrow> hstate \<Rightarrow> error + hstate)
     \<Rightarrow> cref \<Rightarrow> content list \<Rightarrow> state \<Rightarrow> error + cref \<times> state" where
  "distribute eligible put this nodes s =
     (let (nodeArray, h1) = materialize nodes (hst s);
          (c, s1) = slice this (s\<lparr>hst := h1\<rparr>);
          s2 = reverse c s1
      in case forEach c (\<lambda>item k. on_host (distribute_step eligible (put nodeArray) item))
                (True, s2) of
           Inl e \<Rightarrow> Inl e
         | Inr (first, s3) \<Rightarrow> Inr (this, s3))"

definition after :: "cref \<Rightarrow> content list \<Rightarrow> state \<Rightarrow> error + cref \<times> state" where
  "after = distribute after_eligible after_put"

text \<open>
  \<^verbatim>\<open>
  before (...nodes) { ...
      if (EagleJS.isChildNode(item) && item.parentNode !== null) {
        const parent = item.parentNode;
        nodeArray.forEach((node) => {
          parent.insertBefore(first ? node : node.cloneNode(true), item);
        });
        first = false;
      } ...\<close>
\<close>

definition before_put :: "ref list \<Rightarrow> ref \<Rightarrow> bool \<Rightarrow> hstate \<Rightarrow> error + hstate" where
  "before_put nodeArray item first h =
     (case parent_of h item of
        None \<Rightarrow> Inr h
      | Some parent \<Rightarrow> insert_nodes first parent (Some item) nodeArray h)"

definition before :: "cref \<Rightarrow> content list \<Rightarrow> state \<Rightarrow> error + cref \<times> state" where
  "before = distribute after_eligible before_put"

text \<open>
  \<^verbatim>\<open>
  append (...nodes) { ...
      if ('querySelector' in item) { // if ParentNode
        nodeArray.forEach((node) => {
          item.appendChild(first ? node : node.cloneNode(true));
        });
        first = false;
      } ...\<close>
  The legacy variant tests \<open>EagleJS.isParentNode(item)\<close> instead.
\<close>

definition append_put :: "ref list \<Rightarrow> ref \<Rightarrow> bool \<Rightarrow> hstate \<Rightarrow> error + hstate" where
  "append_put nodeArray item first h = insert_nodes first item None nodeArray h"

definition append_op :: "cref \<Rightarrow> content list \<Rightarrow> state \<Rightarrow> error + cref \<times> state" where
  "append_op = distribute (has_prop P_querySelector) append_put"

definition append_legacy :: "cref \<Rightarrow> content list \<Rightarrow> state \<Rightarrow> error + cref \<times> state" where
  "append_legacy = distribute (\<lambda>h item. isParentNode h (JObj item)) append_put"

text \<open>
  \<^verbatim>\<open>
  prepend (...nodes) { ...
      if ('querySelector' in item) { // if ParentNode
        const firstChild = item.firstChild;
        nodeArray.forEach((node) => {
          item.insertBefore(first ? node : node.cloneNode(true), firstChild);
        });
        first = false;
      } ...\<close>
\<close>

definition prepend_put :: "ref list \<Rightarrow> ref \<Rightarrow> bool \<Rightarrow> hstate \<Rightarrow> error + hstate" where
  "prepend_put nodeArray item first h = insert_nodes first item (firstChild h item) nodeArray h"

definition prepend :: "cref \<Rightarrow> content list \<Rightarrow> state \<Rightarrow> error + cref \<times> state" where
  "prepend = distribute (has_prop P_querySelector) prepend_put"


section \<open>The distribution algorithm as the specification words it\<close>

text \<open>
  A loop over a list that stops at the first exception.
\<close>


fun fold_result :: "('b \<Rightarrow> 'a \<Rightarrow> error + 'a) \<Rightarrow> 'b list \<Rightarrow> 'a \<Rightarrow> error + 'a" where
  "fold_result f [] a = Inr a"
| "fold_result f (x # xs) a =
     (case f x a of Inl e \<Rightarrow> Inl e | Inr a' \<Rightarrow> fold_result f xs a')"

text \<open>
  The specification's algorithm: the targets are visited in reverse order; targets
  lacking the capability are skipped; the first target visited receives the
  materialized nodes themselves (\<open>put t True\<close>), every later one a deep clone of each
  (\<open>put t False\<close>).
\<close>

definition spec_distribution ::
  "(hstate \<Rightarrow> ref \<Rightarrow> bool) \<Rightarrow> (ref \<Rightarrow> bool \<Rightarrow> hstate \<Rightarrow> error + hstate) \<Rightarrow> ref list \<Rightarrow> hstate
     \<Rightarrow> error + hstate" where
  "spec_distribution eligible put targets h =
     (case dropWhile (\<lambda>t. \<not> eligible h t) (rev targets) of
        [] \<Rightarrow> Inr h
      | t # ts \<Rightarrow>
          (case put t True h of
             Inl e \<Rightarrow> Inl e
           | Inr h1 \<Rightarrow>
               fold_result (\<lambda>t h'. if eligible h' t then put t False h' else Inr h') ts h1))"

text \<open>Inserting the nodes themselves, and inserting a deep clone of each.\<close>

definition spec_insert_originals :: "ref \<Rightarrow> ref option \<Rightarrow> ref list \<Rightarrow> hstate \<Rightarrow> error + hstate" where
  "spec_insert_originals parent anchor nodeArray h =
     fold_result (\<lambda>node. insertBefore parent node anchor) nodeArray h"

definition spec_insert_clones :: "ref \<Rightarrow> ref option \<Rightarrow> ref list \<Rightarrow> hstate \<Rightarrow> error + hstate" where
  "spec_insert_clones parent anchor nodeArray h =
     fold_result
       (\<lambda>node h'. case cloneNode node True h' of
                     Inl e \<Rightarrow> Inl e
                   | Inr (c, h1) \<Rightarrow> insertBefore parent c anchor h1) nodeArray h"

text \<open>
  The whole operation as specified: materialize the content once, distribute, return
  the receiver. The reversed copy made by \<open>slice().reverse()\<close> stays allocated.
\<close>

definition spec_insertion ::
  "(hstate \<Rightarrow> ref \<Rightarrow> bool) \<Rightarrow> (ref list \<Rightarrow> ref \<Rightarrow> bool \<Rightarrow> hstate \<Rightarrow> error + hstate)
     \<Rightarrow> cref \<Rightarrow> content list \<Rightarrow> state \<Rightarrow> error + cref \<times> state" where
  "spec_insertion eligible put this nodes s =
     (let (nodeArray, h1) = materialize nodes (hst s)
      in case spec_distribution eligible (put nodeArray) (colls s this) h1 of
           Inl e \<Rightarrow> Inl e
         | Inr h2 \<Rightarrow>
             Inr (this,
                  s\<lparr>hst := h2, colls := (colls s)(nextColl s := rev (colls s this)),
                    nextColl := Suc (nextColl s)\<rparr>))"

text \<open>The child list after a node is put before the reference child.\<close>

definition insert_at :: "ref option \<Rightarrow> ref \<Rightarrow> ref list \<Rightarrow> ref list" where
  "insert_at anchor n cs =
     (case anchor of
        None \<Rightarrow> cs @ [n]
      | Some c \<Rightarrow> takeWhile (\<lambda>x. x \<noteq> c) cs @ n # dropWhile (\<lambda>x. x \<noteq> c) cs)"

section \<open>Array iteration that builds a result\<close>

text \<open>
  \<open>Array.prototype.some\<close> with a callback that writes a captured variable
  (\<open>returnValue\<close>): the callback yields its verdict and the variable's new value; the
  loop stops at the first true verdict.
\<close>

fun some_loop :: "ref list \<Rightarrow> (ref \<Rightarrow> 'v \<Rightarrow> bool \<times> 'v) \<Rightarrow> 'v \<Rightarrow> bool \<times> 'v" where
  "some_loop [] cb v = (False, v)"
| "some_loop (x # xs) cb v =
     (let (b, v') = cb x v in if b then (True, v') else some_loop xs cb v')"

text \<open>
  \<open>Array.prototype.filter\<close>, reached through \<open>super.filter\<close>. The result array is
  made by the species constructor, \<open>new EagleJS(0)\<close>, whose \<open>push(0)\<close> keeps nothing;
  each element the callback accepts is then written to it directly. The callback
  receives the element, its index and the receiver.
\<close>

definition array_filter ::
  "cref \<Rightarrow> (ref \<Rightarrow> nat \<Rightarrow> ref list \<Rightarrow> error + bool) \<Rightarrow> state \<Rightarrow> error + cref \<times> state" where
  "array_filter this cb s =
     (let (a, s1) = new_instance s
      in case forEach this
                (\<lambda>item k acc.
                   case cb item k (colls (snd acc) this) of
                     Inl e \<Rightarrow> Inl e
                   | Inr selected \<Rightarrow>
                       Inr (fst acc,
                            if selected
                            then (snd acc)\<lparr>colls := (colls (snd acc))(a := colls (snd acc) a @ [item])\<rparr>
                            else snd acc))
                ((), s1) of
           Inl e \<Rightarrow> Inl e
         | Inr acc \<Rightarrow> Inr (a, snd acc))"

text \<open>
  The shape of every projection:
  \<^verbatim>\<open>
  const $elements = new EagleJS();
  this.forEach((item) => {
    if (<capability test>) { $elements.push(<related items>); }
  });\<close>
  \<open>related\<close> yields the items to push for one member (none when the test fails) and
  the host state after finding them.
\<close>

definition project ::
  "cref \<Rightarrow> (ref \<Rightarrow> hstate \<Rightarrow> error + jsval list \<times> hstate) \<Rightarrow> state \<Rightarrow> error + cref \<times> state" where
  "project this related s =
     (let (e, s1) = new_instance s
      in case forEach this
                (\<lambda>item k acc.
                   case related item (hst (snd acc)) of
                     Inl err \<Rightarrow> Inl err
                   | Inr (vs, h) \<Rightarrow> Inr (fst acc, snd (push e vs ((snd acc)\<lparr>hst := h\<rparr>))))
                ((), s1) of
           Inl err \<Rightarrow> Inl err
         | Inr acc \<Rightarrow> Inr (e, snd acc))"

section \<open>filter and not\<close>

text \<open>
  The matcher argument: a selector string, a predicate function (its result taken as a
  boolean), an array of items, or a single item.
\<close>

datatype matcher =
  MStr string | MFun "ref \<Rightarrow> nat \<Rightarrow> ref list \<Rightarrow> bool" | MList "jsval list" | MItem jsval

text \<open>
  \<^verbatim>\<open>
  filter (selector, thisArg) {
    if (typeof selector === 'string') {
      return this.filter((item) => 'matches' in item && item.matches(selector));
    }
    if (typeof selector === 'function') {
      return super.filter(selector, thisArg);
    }
    if (Array.isArray(selector)) {
      return this.filter((item) => selector.includes(item));
    }
    return this.filter((item) => item === selector);
  }\<close>
  The callback each branch hands to \<open>super.filter\<close>:
\<close>

definition filter_callback ::
  "host \<Rightarrow> matcher \<Rightarrow> hstate \<Rightarrow> ref \<Rightarrow> nat \<Rightarrow> ref list \<Rightarrow> error + bool" where
  "filter_callback H m h item k arr =
     (case m of
        MStr sel \<Rightarrow> if has_prop P_matches h item then host_matches H h item sel else Inr False
      | MFun f \<Rightarrow> Inr (f item k arr)
      | MList l \<Rightarrow> Inr (JObj item \<in> set l)
      | MItem v \<Rightarrow> Inr (JObj item = v))"

definition filter_op :: "host \<Rightarrow> cref \<Rightarrow> matcher \<Rightarrow> state \<Rightarrow> error + cref \<times> state" where
  "filter_op H this m s = array_filter this (filter_callback H m (hst s)) s"

text \<open>
  \<^verbatim>\<open>
  not (selector) {
    if (typeof selector === 'string') {
      return this.filter((item) => {
        return 'matches' in item && !item.matches(selector);
      });
    }
    if (typeof selector === 'function') {
      return this.filter((item, index, array) => {
        const flag = Boolean(selector(item, index, array));
        return !flag;
      });
    }
    if (Array.isArray(selector)) {
      return this.filter((item) => !selector.includes(item));
    }
    return this.filter((item) => item !== selector);
  }\<close>
\<close>

definition not_callback ::
  "host \<Rightarrow> matcher \<Rightarrow> hstate \<Rightarrow> ref \<Rightarrow> nat \<Rightarrow> ref list \<Rightarrow> error + bool" where
  "not_callback H m h item k arr =
     (case m of
        MStr sel \<Rightarrow>
          if has_prop P_matches h item then
            (case host_matches H h item sel of Inl e \<Rightarrow> Inl e | Inr b \<Rightarrow> Inr (\<not> b))
          else Inr False
      | MFun f \<Rightarrow> Inr (\<not> f item k arr)
      | MList l \<Rightarrow> Inr (JObj item \<notin> set l)
      | MItem v \<Rightarrow> Inr (JObj item \<noteq> v))"

definition not_op :: "host \<Rightarrow> cref \<Rightarrow> matcher \<Rightarrow> state \<Rightarrow> error + cref \<times> state" where
  "not_op H this m s = array_filter this (not_callback H m (hst s)) s"

section \<open>Projections\<close>

definition optional_filter ::
  "host \<Rightarrow> string option \<Rightarrow> error + cref \<times> state \<Rightarrow> error + cref \<times> state" where
  "optional_filter H flt r =
     (case r of
        Inl e \<Rightarrow> Inl e
      | Inr (e, s) \<Rightarrow> (case flt of None \<Rightarrow> Inr (e, s) | Some f \<Rightarrow> filter_op H e (MStr f) s))"

text \<open>
  \<^verbatim>\<open>
  children (filter = null) {
    const $elements = new EagleJS();
    this.forEach((item) => {
      if ('children' in item) { $elements.push(...item.children); }
    });
    if (filter !== null) { return $elements.filter(filter); }
    return $elements;
  }\<close>
\<close>

definition children :: "host \<Rightarrow> cref \<Rightarrow> string option \<Rightarrow> state \<Rightarrow> error + cref \<times> state" where
  "children H this flt s =
     optional_filter H flt
       (project this
          (\<lambda>item h. Inr (if has_prop P_children h item
                          then map JObj (element_children h item) else [], h)) s)"

text \<open>
  \<^verbatim>\<open>
  clone (deep = false) { ...
      if ('cloneNode' in item) { $elements.push(item.cloneNode(deep)); } ...\<close>
\<close>

definition clone :: "cref \<Rightarrow> bool \<Rightarrow> state \<Rightarrow> error + cref \<times> state" where
  "clone this deep s =
     project this
       (\<lambda>item h. if has_prop P_cloneNode h item then
                     (case cloneNode item deep h of
                        Inl e \<Rightarrow> Inl e
                      | Inr (c, h') \<Rightarrow> Inr ([JObj c], h'))
                   else Inr ([], h)) s"

text \<open>
  \<^verbatim>\<open>
  closest (selector) { ...
      if ('closest' in item) {
        const closest = item.closest(selector);
        if (closest !== null) { $elements.push(closest); }
      } ...\<close>
\<close>

definition closest :: "host \<Rightarrow> cref \<Rightarrow> string \<Rightarrow> state \<Rightarrow> error + cref \<times> state" where
  "closest H this selector s =
     project this
       (\<lambda>item h. if has_prop P_closest h item then
                     (case host_closest H h item selector of
                        Inl e \<Rightarrow> Inl e
                      | Inr None \<Rightarrow> Inr ([], h)
                      | Inr (Some c) \<Rightarrow> Inr ([JObj c], h))
                   else Inr ([], h)) s"

text \<open>The element siblings the host reports for a node.\<close>

definition nextElementSibling :: "hstate \<Rightarrow> ref \<Rightarrow> ref option" where
  "nextElementSibling h r =
     (case parent_of h r of
        None \<Rightarrow> None
      | Some p \<Rightarrow>
          (case filter (\<lambda>c. node_type h c = 1)
                  (drop 1 (dropWhile (\<lambda>c. c \<noteq> r) (child_nodes h p))) of
             [] \<Rightarrow> None
           | n # _ \<Rightarrow> Some n))"

definition previousElementSibling :: "hstate \<Rightarrow> ref \<Rightarrow> ref option" where
  "previousElementSibling h r =
     (case parent_of h r of
        None \<Rightarrow> None
      | Some p \<Rightarrow>
          (case rev (filter (\<lambda>c. node_type h c = 1)
                  (takeWhile (\<lambda>c. c \<noteq> r) (child_nodes h p))) of
             [] \<Rightarrow> None
           | n # _ \<Rightarrow> Some n))"

text \<open>
  \<^verbatim>\<open>
  next (filter = null) { ...
      if ('nextElementSibling' in item && item.nextElementSibling !== null) {
        $elements.push(item.nextElementSibling);
      } ...
    if (filter !== null) { return $elements.filter(filter); }
    return $elements;
  }\<close>
\<close>

definition next_op :: "host \<Rightarrow> cref \<Rightarrow> string option \<Rightarrow> state \<Rightarrow> error + cref \<times> state" where
  "next_op H this flt s =
     optional_filter H flt
       (project this
          (\<lambda>item h. Inr (if has_prop P_nextElementSibling h item then
                            (case nextElementSibling h item of None \<Rightarrow> [] | Some n \<Rightarrow> [JObj n])
                          else [], h)) s)"

text \<open>
  \<^verbatim>\<open>
  parent (filter = null) { ...
      if ('parentNode' in item && item.parentNode !== null) {
        $elements.push(item.parentNode);
      } ...\<close>
\<close>

definition parent :: "host \<Rightarrow> cref \<Rightarrow> string option \<Rightarrow> state \<Rightarrow> error + cref \<times> state" where
  "parent H this flt s =
     optional_filter H flt
       (project this
          (\<lambda>item h. Inr (if has_prop P_parentNode h item then
                            (case parent_of h item of None \<Rightarrow> [] | Some p \<Rightarrow> [JObj p])
                          else [], h)) s)"

text \<open>
  \<^verbatim>\<open>
  prev (filter = null) { ...
      if ('previousElementSibling' in item &&
        item.previousElementSibling !== null) {
        $elements.push(item.previousElementSibling);
      } ...\<close>
\<close>

definition prev :: "host \<Rightarrow> cref \<Rightarrow> string option \<Rightarrow> state \<Rightarrow> error + cref \<times> state" where
  "prev H this flt s =
     optional_filter H flt
       (project this
          (\<lambda>item h. Inr (if has_prop P_previousElementSibling h item then
                            (case previousElementSibling h item of None \<Rightarrow> [] | Some n \<Rightarrow> [JObj n])
                          else [], h)) s)"

text \<open>
  \<^verbatim>\<open>
  querySelectorAll (selectors) { ...
      if ('querySelectorAll' in item) {
        $elements.push(...item.querySelectorAll(selectors));
      } ...\<close>
\<close>

definition querySelectorAll :: "host \<Rightarrow> cref \<Rightarrow> string \<Rightarrow> state \<Rightarrow> error + cref \<times> state" where
  "querySelectorAll H this selectors s =
     project this
       (\<lambda>item h. if has_prop P_querySelectorAll h item then
                     (case host_querySelectorAll H h item selectors of
                        Inl e \<Rightarrow> Inl e
                      | Inr found \<Rightarrow> Inr (map JObj found, h))
                   else Inr ([], h)) s"

section \<open>The constructor\<close>

text \<open>
  The test \<^verbatim>\<open>/^\s*<.+>\s*$/.test(selector)\<close>. \<open>\s\<close> matches the white space
  characters (of the code units modelled: tab, line feed, vertical tab, form feed,
  carriage return, space, no-break space); \<open>.\<close> matches every character that is not
  a line terminator (line feed, carriage return). Neither \<open><\<close> nor \<open>>\<close> is white
  space, so the leading and the trailing run of white space are determined.
\<close>

definition is_space :: "char \<Rightarrow> bool" where
  "is_space c = (of_char c \<in> {9, 10, 11, 12, 13, 32, 160 :: nat})"

definition is_line_terminator :: "char \<Rightarrow> bool" where
  "is_line_terminator c = (of_char c \<in> {10, 13 :: nat})"

definition looks_like_html :: "string \<Rightarrow> bool" where
  "looks_like_html str =
     (case dropWhile is_space str of
        [] \<Rightarrow> False
      | c # rest \<Rightarrow>
          c = CHR ''<'' \<and>
          (case dropWhile is_space (rev rest) of
             [] \<Rightarrow> False
           | d # mid \<Rightarrow>
               d = CHR ''>'' \<and> mid \<noteq> [] \<and> list_all (\<lambda>x. \<not> is_line_terminator x) mid))"



text \<open>
  The arguments of the constructor: \<open>null\<close>, a string, an array, or any other value.
\<close>

datatype arg = ANull | AStr string | AList "jsval list" | AItem jsval

definition arg_rank :: "arg \<Rightarrow> nat" where
  "arg_rank a = (case a of AStr str \<Rightarrow> if looks_like_html str then 2 else 1 | _ \<Rightarrow> 0)"

definition is_string :: "arg \<Rightarrow> bool" where
  "is_string a = (case a of AStr str \<Rightarrow> True | _ \<Rightarrow> False)"

text \<open>
  The typed variant:
  \<^verbatim>\<open>
  constructor (selector = null, context = document) {
    super();
    if (selector !== null) {
      if (typeof selector === 'string') {
        if (/^\s*<.+>\s*$/.test(selector)) {
          const doc = new DOMParser().parseFromString(selector, 'text/html');
          this.push(...doc.body.childNodes);
        } else {
          return new EagleJS(context).querySelectorAll(selector);
        }
      } else if (Array.isArray(selector)) {
        this.push(...selector);
      } else {
        this.push(selector);
      }
    }
  }\<close>
  \<open>host_parse_body\<close> stands for \<open>new DOMParser().parseFromString(_, 'text/html').body\<close>.
  \<open>new EagleJS(context)\<close> leaves the second parameter to its default, the global
  \<open>document\<close>.
\<close>

function EagleJS :: "host \<Rightarrow> arg \<Rightarrow> arg \<Rightarrow> state \<Rightarrow> error + cref \<times> state" where
  "EagleJS H selector context s =
     (let (this, s1) = new_instance s
      in case selector of
           ANull \<Rightarrow> Inr (this, s1)
         | AStr str \<Rightarrow>
             if looks_like_html str then
               (let (body, h) = host_parse_body H str (hst s1)
                in Inr (this, snd (push this (map JObj (child_nodes h body)) (s1\<lparr>hst := h\<rparr>))))
             else
               (case EagleJS H context (AItem (JObj (document (hst s1)))) s1 of
                  Inl e \<Rightarrow> Inl e
                | Inr (c, s2) \<Rightarrow> querySelectorAll H c str s2)
         | AList l \<Rightarrow> Inr (this, snd (push this l s1))
         | AItem v \<Rightarrow> Inr (this, snd (push this [v] s1)))"
  by pat_completeness auto
termination
  by (relation "measure (\<lambda>(H, selector, context, s).
        (if is_string selector then 1 else 0) + (if is_string context then 2 else 0))")
     (auto simp: is_string_def split: arg.splits)

declare EagleJS.simps [simp del]

section \<open>The legacy variant of the constructor and what it calls\<close>

text \<open>
  \<^verbatim>\<open>
  filter (selector, thisArg) {
    if (typeof selector === 'string') {
      return this.filter((item) => {
        return EagleJS.isElement(item) && item.matches(selector);
      });
    } ... (as in the typed variant)\<close>
\<close>

definition filter_callback_legacy ::
  "host \<Rightarrow> matcher \<Rightarrow> hstate \<Rightarrow> ref \<Rightarrow> nat \<Rightarrow> ref list \<Rightarrow> error + bool" where
  "filter_callback_legacy H m h item k arr =
     (case m of
        MStr sel \<Rightarrow> if isElement h (JObj item) then host_matches H h item sel else Inr False
      | MFun f \<Rightarrow> Inr (f item k arr)
      | MList l \<Rightarrow> Inr (JObj item \<in> set l)
      | MItem v \<Rightarrow> Inr (JObj item = v))"

definition filter_legacy :: "host \<Rightarrow> cref \<Rightarrow> matcher \<Rightarrow> state \<Rightarrow> error + cref \<times> state" where
  "filter_legacy H this m s = array_filter this (filter_callback_legacy H m (hst s)) s"

text \<open>
  \<^verbatim>\<open>
  children (filter = null) {
    const $elements = new EagleJS();
    this.forEach((item) => {
      if (EagleJS.isParentNode(item)) { $elements.push(...item.children); }
    });
    if (filter !== null) { return $elements.filter(filter); }
    return $elements;
  }\<close>
\<close>

definition children_legacy ::
  "host \<Rightarrow> cref \<Rightarrow> matcher option \<Rightarrow> state \<Rightarrow> error + cref \<times> state" where
  "children_legacy H this flt s =
     (case project this
             (\<lambda>item h. Inr (if isParentNode h (JObj item)
                             then map JObj (element_children h item) else [], h)) s of
        Inl e \<Rightarrow> Inl e
      | Inr (e, s1) \<Rightarrow> (case flt of None \<Rightarrow> Inr (e, s1) | Some f \<Rightarrow> filter_legacy H e f s1))"

text \<open>
  \<^verbatim>\<open>
  find (selector, thisArg) {
    const $elements = new EagleJS();
    if (typeof selector === 'string') {
      this.forEach((item) => {
        if (EagleJS.isParentNode(item)) {
          $elements.push(...item.querySelectorAll(selector));
        }
      });
    } else if (typeof selector === 'function') {
      return super.find(selector, thisArg);
    }
    return $elements;
  }\<close>
  for a string argument.
\<close>

definition find_legacy :: "host \<Rightarrow> cref \<Rightarrow> string \<Rightarrow> state \<Rightarrow> error + cref \<times> state" where
  "find_legacy H this selector s =
     project this
       (\<lambda>item h. if isParentNode h (JObj item) then
                     (case host_querySelectorAll H h item selector of
                        Inl e \<Rightarrow> Inl e
                      | Inr found \<Rightarrow> Inr (map JObj found, h))
                   else Inr ([], h)) s"

text \<open>What a get-or-set accessor returns: the receiver, a string, \<open>null\<close>,
  \<open>undefined\<close>, or the entries of a \<open>dataset\<close> object.\<close>

datatype ret = RThis cref | RString string | RNull | RUndefined | RObject "(string \<times> string) list"

text \<open>
  \<^verbatim>\<open>
  html (value) {
    if (typeof value !== 'undefined') {
      this.forEach((item) => {
        if (EagleJS.isElement(item)) { item.innerHTML = value; }
      });
      return this;
    }
    let returnValue = '';
    this.some((item) => {
      if (EagleJS.isElement(item)) { returnValue = item.innerHTML; return true; }
      return false;
    });
    return returnValue;
  }\<close>
  The typed variant tests \<open>'innerHTML' in item\<close>.
\<close>

definition html_with ::
  "(hstate \<Rightarrow> ref \<Rightarrow> bool) \<Rightarrow> host \<Rightarrow> cref \<Rightarrow> string option \<Rightarrow> state \<Rightarrow> error + ret \<times> state" where
  "html_with eligible H this value s =
     (case value of
        Some v \<Rightarrow>
          (case forEach this
                  (\<lambda>item k. on_host (\<lambda>(u, h). Inr (u, if eligible h item
                                                       then host_set_innerHTML H item v h else h)))
                  ((), s) of
             Inl e \<Rightarrow> Inl e
           | Inr acc \<Rightarrow> Inr (RThis this, snd acc))
      | None \<Rightarrow>
          Inr (RString
                 (snd (some_loop (colls s this)
                         (\<lambda>item rv. if eligible (hst s) item
                                     then (True, host_get_innerHTML H (hst s) item)
                                     else (False, rv)) [])), s))"

definition html :: "host \<Rightarrow> cref \<Rightarrow> string option \<Rightarrow> state \<Rightarrow> error + ret \<times> state" where
  "html = html_with (has_prop P_innerHTML)"

definition html_legacy :: "host \<Rightarrow> cref \<Rightarrow> string option \<Rightarrow> state \<Rightarrow> error + ret \<times> state" where
  "html_legacy = html_with (\<lambda>h item. isElement h (JObj item))"

text \<open>
  The legacy variant:
  \<^verbatim>\<open>
  constructor (selector = null, context = document) {
    super();
    if (selector !== null) {
      if (typeof selector === 'string') {
        if (/^\s*<.+>\s*$/.test(selector)) {
          if (EagleJS.isDocument(context)) {
            const doc = context.implementation.createHTMLDocument('');
            return new EagleJS('body', doc).html(selector).children();
          }
        } else {
          return new EagleJS(context).find(selector);
        }
      } else if (Array.isArray(selector)) {
        this.push(...selector);
      } else {
        this.push(selector);
      }
    }
  }\<close>
  A string or an array is no document; calling \<open>children\<close> on anything but a
  collection would be a type error.
\<close>

fun arg_isDocument :: "hstate \<Rightarrow> arg \<Rightarrow> bool" where
  "arg_isDocument h (AItem v) = isDocument h v"
| "arg_isDocument h _ = False"

function EagleJS_legacy :: "host \<Rightarrow> arg \<Rightarrow> arg \<Rightarrow> state \<Rightarrow> error + cref \<times> state" where
  "EagleJS_legacy H selector context s =
     (let (this, s1) = new_instance s
      in case selector of
           ANull \<Rightarrow> Inr (this, s1)
         | AStr str \<Rightarrow>
             if looks_like_html str then
               (if arg_isDocument (hst s1) context then
                  (let (doc, h) = host_createHTMLDocument H (hst s1)
                   in case EagleJS_legacy H (AStr ''body'') (AItem (JObj doc)) (s1\<lparr>hst := h\<rparr>) of
                        Inl e \<Rightarrow> Inl e
                      | Inr (c, s2) \<Rightarrow>
                          (case html_legacy H c (Some str) s2 of
                             Inl e \<Rightarrow> Inl e
                           | Inr (RThis c', s3) \<Rightarrow> children_legacy H c' None s3
                           | Inr (_, s3) \<Rightarrow> Inl TypeError))
                else Inr (this, s1))
             else
               (case EagleJS_legacy H context (AItem (JObj (document (hst s1)))) s1 of
                  Inl e \<Rightarrow> Inl e
                | Inr (c, s2) \<Rightarrow> find_legacy H c str s2)
         | AList l \<Rightarrow> Inr (this, snd (push this l s1))
         | AItem v \<Rightarrow> Inr (this, snd (push this [v] s1)))"
  by pat_completeness auto
termination
  by (relation "measure (\<lambda>(H, selector, context, s).
        arg_rank selector + (if is_string context then 3 else 0))")
     (auto simp: arg_rank_def is_string_def looks_like_html_def [of "''body''"] is_space_def
        split: arg.splits)

declare EagleJS_legacy.simps [simp del]

section \<open>Get-or-set accessors\<close>

text \<open>
  Attributes. \<open>host_attr_name\<close> gives the name under which the host stores an
  attribute (an HTML document lower-cases it), or nothing for a name the host refuses
  with an \<open>InvalidCharacterError\<close>.
\<close>

fun alist_update :: "string \<Rightarrow> string \<Rightarrow> (string \<times> string) list \<Rightarrow> (string \<times> string) list" where
  "alist_update k v [] = [(k, v)]"
| "alist_update k v (p # ps) = (if fst p = k then (k, v) # ps else p # alist_update k v ps)"

definition setAttribute :: "host \<Rightarrow> ref \<Rightarrow> string \<Rightarrow> string \<Rightarrow> hstate \<Rightarrow> error + hstate" where
  "setAttribute H r name v h =
     (case host_attr_name H name of
        None \<Rightarrow> Inl InvalidCharacterError
      | Some n \<Rightarrow> Inr (upd_obj r (\<lambda>ob. ob\<lparr>attributes := alist_update n v (attributes ob)\<rparr>) h))"

definition getAttribute :: "host \<Rightarrow> hstate \<Rightarrow> ref \<Rightarrow> string \<Rightarrow> string option" where
  "getAttribute H h r name =
     (case objects h r of
        None \<Rightarrow> None
      | Some ob \<Rightarrow>
          (case host_attr_name H name of None \<Rightarrow> None | Some n \<Rightarrow> map_of (attributes ob) n))"

text \<open>
  \<^verbatim>\<open>
  attr (name, value) {
    if (typeof value !== 'undefined') {
      this.forEach((item) => {
        if ('setAttribute' in item) { item.setAttribute(name, value); }
      });
      return this;
    }
    let returnValue = null;
    this.some((item) => {
      if ('getAttribute' in item) {
        returnValue = item.getAttribute(name);
        return true;
      }
      return false;
    });
    return returnValue;
  }\<close>
\<close>

definition attr :: "host \<Rightarrow> cref \<Rightarrow> string \<Rightarrow> string option \<Rightarrow> state \<Rightarrow> error + ret \<times> state" where
  "attr H this name value s =
     (case value of
        Some v \<Rightarrow>
          (case forEach this
                  (\<lambda>item k. on_host (\<lambda>(u, h). if has_prop P_setAttribute h item then
                                                   (case setAttribute H item name v h of
                                                      Inl e \<Rightarrow> Inl e
                                                    | Inr h' \<Rightarrow> Inr (u, h'))
                                                 else Inr (u, h)))
                  ((), s) of
             Inl e \<Rightarrow> Inl e
           | Inr acc \<Rightarrow> Inr (RThis this, snd acc))
      | None \<Rightarrow>
          Inr (snd (some_loop (colls s this)
                      (\<lambda>item rv. if has_prop P_getAttribute (hst s) item then
                                    (True, case getAttribute H (hst s) item name of
                                             None \<Rightarrow> RNull
                                           | Some v \<Rightarrow> RString v)
                                  else (False, rv)) RNull), s))"

text \<open>
  \<^verbatim>\<open>key.replace(/-([a-z])/g, (_match, letter) => letter.toUpperCase())\<close>
\<close>

definition is_lower :: "char \<Rightarrow> bool" where
  "is_lower c = (97 \<le> (of_char c :: nat) \<and> (of_char c :: nat) \<le> 122)"

definition to_upper :: "char \<Rightarrow> char" where
  "to_upper c = (if is_lower c then char_of ((of_char c :: nat) - 32) else c)"

fun camelCase :: "string \<Rightarrow> string" where
  "camelCase (c # d # cs) =
     (if c = CHR ''-'' \<and> is_lower d then to_upper d # camelCase cs else c # camelCase (d # cs))"
| "camelCase cs = cs"

text \<open>
  \<open>item.dataset[key] = value\<close> and \<open>item.dataset[key]\<close>. The host refuses a key with
  a hyphen before a lower-case letter (\<open>SyntaxError\<close>) and a key that gives no valid
  attribute name.
\<close>

fun hyphen_lower :: "string \<Rightarrow> bool" where
  "hyphen_lower (c # d # cs) = ((c = CHR ''-'' \<and> is_lower d) \<or> hyphen_lower (d # cs))"
| "hyphen_lower cs = False"

definition dataset_set :: "host \<Rightarrow> ref \<Rightarrow> string \<Rightarrow> string \<Rightarrow> hstate \<Rightarrow> error + hstate" where
  "dataset_set H r key v h =
     (if hyphen_lower key then Inl SyntaxError
      else
        (case host_attr_name H (''data-'' @ key) of
           None \<Rightarrow> Inl InvalidCharacterError
         | Some n \<Rightarrow> Inr (upd_obj r (\<lambda>ob. ob\<lparr>dataset := alist_update key v (dataset ob)\<rparr>) h)))"

definition dataset_of :: "hstate \<Rightarrow> ref \<Rightarrow> (string \<times> string) list" where
  "dataset_of h r = (case objects h r of None \<Rightarrow> [] | Some ob \<Rightarrow> dataset ob)"

text \<open>
  \<^verbatim>\<open>
  data (key, value) {
    if (typeof key !== 'undefined') {
      const camelCaseKey = key.replace(/-([a-z])/g, ...);
      if (typeof value !== 'undefined') {
        this.forEach((item) => {
          if ('dataset' in item) { item.dataset[camelCaseKey] = value; }
        });
        return this;
      }
      let returnValue;
      this.some((item) => {
        if ('dataset' in item) {
          returnValue = item.dataset[camelCaseKey];
          return true;
        }
        return false;
      });
      return returnValue;
    }
    let returnValue = {};
    this.some((item) => {
      if ('dataset' in item) { returnValue = item.dataset; return true; }
      return false;
    });
    return returnValue;
  }\<close>
\<close>

definition data ::
  "host \<Rightarrow> cref \<Rightarrow> string option \<Rightarrow> string option \<Rightarrow> state \<Rightarrow> error + ret \<times> state" where
  "data H this key value s =
     (case key of
        Some k \<Rightarrow>
          (case value of
             Some v \<Rightarrow>
               (case forEach this
                       (\<lambda>item i. on_host (\<lambda>(u, h). if has_prop P_dataset h item then
                                                        (case dataset_set H item (camelCase k) v h of
                                                           Inl e \<Rightarrow> Inl e
                                                         | Inr h' \<Rightarrow> Inr (u, h'))
                                                      else Inr (u, h)))
                       ((), s) of
                  Inl e \<Rightarrow> Inl e
                | Inr acc \<Rightarrow> Inr (RThis this, snd acc))
           | None \<Rightarrow>
               Inr (snd (some_loop (colls s this)
                           (\<lambda>item rv. if has_prop P_dataset (hst s) item then
                                         (True, case map_of (dataset_of (hst s) item) (camelCase k) of
                                                  None \<Rightarrow> RUndefined
                                                | Some v \<Rightarrow> RString v)
                                       else (False, rv)) RUndefined), s))
      | None \<Rightarrow>
          Inr (snd (some_loop (colls s this)
                      (\<lambda>item rv. if has_prop P_dataset (hst s) item
                                  then (True, RObject (dataset_of (hst s) item))
                                  else (False, rv)) (RObject [])), s))"

text \<open>
  \<^verbatim>\<open>
  text (value) {
    if (typeof value !== 'undefined') {
      this.forEach((item) => {
        if ('textContent' in item) { item.textContent = value; }
      });
      return this;
    }
    let returnValue = null;
    this.some((item) => {
      if ('textContent' in item) {
        returnValue = item.textContent;
        return true;
      }
      return false;
    });
    return returnValue;
  }\<close>
\<close>

definition text_op :: "host \<Rightarrow> cref \<Rightarrow> string option \<Rightarrow> state \<Rightarrow> error + ret \<times> state" where
  "text_op H this value s =
     (case value of
        Some v \<Rightarrow>
          (case forEach this
                  (\<lambda>item k. on_host (\<lambda>(u, h). Inr (u, if has_prop P_textContent h item
                                                       then host_set_textContent H item v h else h)))
                  ((), s) of
             Inl e \<Rightarrow> Inl e
           | Inr acc \<Rightarrow> Inr (RThis this, snd acc))
      | None \<Rightarrow>
          Inr (snd (some_loop (colls s this)
                      (\<lambda>item rv. if has_prop P_textContent (hst s) item then
                                    (True, case host_get_textContent H (hst s) item of
                                             None \<Rightarrow> RNull
                                           | Some v \<Rightarrow> RString v)
                                  else (False, rv)) RNull), s))"

section \<open>ready\<close>










section \<open>toggleClass\<close>

text \<open>
  \<open>item.classList.toggle(name, force)\<close>, with \<open>force = None\<close> when the argument is
  not passed. An empty token is a \<open>SyntaxError\<close>, a token with ASCII white space an
  \<open>InvalidCharacterError\<close>.
\<close>

definition ascii_space :: "char \<Rightarrow> bool" where
  "ascii_space c = (of_char c \<in> {9, 10, 12, 13, 32 :: nat})"

definition classList_toggle :: "ref \<Rightarrow> string \<Rightarrow> bool option \<Rightarrow> hstate \<Rightarrow> error + hstate" where
  "classList_toggle r name force h =
     (if name = [] then Inl SyntaxError
      else if list_ex ascii_space name then Inl InvalidCharacterError
      else
        Inr (upd_obj r
               (\<lambda>ob. if name \<in> set (classList ob) then
                        (if force = Some True then ob
                         else ob\<lparr>classList := removeAll name (classList ob)\<rparr>)
                      else
                        (if force = Some False then ob
                         else ob\<lparr>classList := classList ob @ [name]\<rparr>)) h))"

text \<open>
  The typed variant:
  \<^verbatim>\<open>
  toggleClass (name, force) {
    this.forEach((item) => {
      if ('classList' in item) { item.classList.toggle(name, force); }
    });
    return this;
  }\<close>
\<close>

definition toggle_loop ::
  "(hstate \<Rightarrow> ref \<Rightarrow> bool) \<Rightarrow> cref \<Rightarrow> string \<Rightarrow> bool option \<Rightarrow> state \<Rightarrow> error + unit \<times> state" where
  "toggle_loop eligible this name force s =
     forEach this
       (\<lambda>item k. on_host (\<lambda>(u, h). if eligible h item then
                                        (case classList_toggle item name force h of
                                           Inl e \<Rightarrow> Inl e
                                         | Inr h' \<Rightarrow> Inr (u, h'))
                                      else Inr (u, h)))
       ((), s)"

definition toggleClass :: "cref \<Rightarrow> string \<Rightarrow> bool option \<Rightarrow> state \<Rightarrow> error + cref \<times> state" where
  "toggleClass this name force s =
     (case toggle_loop (has_prop P_classList) this name force s of
        Inl e \<Rightarrow> Inl e
      | Inr acc \<Rightarrow> Inr (this, snd acc))"

text \<open>
  The legacy variant:
  \<^verbatim>\<open>
  toggleClass (name, force = null) {
    if (force === null) {
      this.forEach((item) => {
        if (EagleJS.isElement(item)) { item.classList.toggle(name); }
      });
    } else {
      this.forEach((item) => {
        if (EagleJS.isElement(item)) { item.classList.toggle(name); }
      });
    }
    return this;
  }\<close>
\<close>

definition toggleClass_legacy ::
  "cref \<Rightarrow> string \<Rightarrow> bool option \<Rightarrow> state \<Rightarrow> error + cref \<times> state" where
  "toggleClass_legacy this name force s =
     (case (if force = None
            then toggle_loop (\<lambda>h item. isElement h (JObj item)) this name None s
            else toggle_loop (\<lambda>h item. isElement h (JObj item)) this name None s) of
        Inl e \<Rightarrow> Inl e
      | Inr acc \<Rightarrow> Inr (this, snd acc))"

section \<open>A small host and a sample page for the worked examples\<close>

text \<open>
  The general theorems hold for every host. The worked examples run on this one: a
  selector engine that understands a tag name and \<open>.class\<close>, a parser for markup of
  the form \<open><name>text</name>\<close>, the matching serialiser, \<open>textContent\<close> as the
  DOM standard defines it, and attribute names that are lower-cased and must be
  non-empty without white space.
\<close>

datatype simple_selector = ByName string | ByClass string

definition is_name_char :: "char \<Rightarrow> bool" where
  "is_name_char c =
     (let n = (of_char c :: nat)
      in (97 \<le> n \<and> n \<le> 122) \<or> (65 \<le> n \<and> n \<le> 90) \<or> (48 \<le> n \<and> n \<le> 57) \<or> n = 45)"

definition parse_selector :: "string \<Rightarrow> simple_selector option" where
  "parse_selector sel =
     (case sel of
        [] \<Rightarrow> None
      | c # cs \<Rightarrow>
          if c = CHR ''.'' \<and> cs \<noteq> [] \<and> list_all is_name_char cs then Some (ByClass cs)
          else if list_all is_name_char sel then Some (ByName sel)
          else None)"

definition selects :: "simple_selector \<Rightarrow> hstate \<Rightarrow> ref \<Rightarrow> bool" where
  "selects q h r =
     (case objects h r of
        None \<Rightarrow> False
      | Some ob \<Rightarrow>
          nodeType ob = 1 \<and>
          (case q of ByName n \<Rightarrow> localName ob = n | ByClass c \<Rightarrow> c \<in> set (classList ob)))"

fun descendants :: "nat \<Rightarrow> hstate \<Rightarrow> ref \<Rightarrow> ref list" where
  "descendants 0 h r = []"
| "descendants (Suc k) h r = concat (map (\<lambda>c. c # descendants k h c) (child_nodes h r))"

fun closest_walk :: "nat \<Rightarrow> simple_selector \<Rightarrow> hstate \<Rightarrow> ref \<Rightarrow> ref option" where
  "closest_walk 0 q h r = (if selects q h r then Some r else None)"
| "closest_walk (Suc k) q h r =
     (if selects q h r then Some r
      else (case parent_of h r of None \<Rightarrow> None | Some p \<Rightarrow> closest_walk k q h p))"

definition blank_node :: "nat \<Rightarrow> string \<Rightarrow> hobject" where
  "blank_node t name =
     \<lparr>nodeType = t, eventTarget = True, parentNode = None, childNodes = [], localName = name,
      attributes = [], classList = [], dataset = [], nodeData = [], readyState = [],
      listeners = []\<rparr>"

definition alloc :: "hobject \<Rightarrow> hstate \<Rightarrow> ref \<times> hstate" where
  "alloc ob h =
     (nextRef h, h\<lparr>objects := (objects h)(nextRef h \<mapsto> ob), nextRef := Suc (nextRef h)\<rparr>)"

definition sample_parse_into :: "ref \<Rightarrow> string \<Rightarrow> hstate \<Rightarrow> hstate" where
  "sample_parse_into r markup h =
     (let str = dropWhile is_space markup;
          name = takeWhile (\<lambda>c. c \<noteq> CHR ''>'') (drop 1 str);
          txt = takeWhile (\<lambda>c. c \<noteq> CHR ''<'') (drop 1 (dropWhile (\<lambda>c. c \<noteq> CHR ''>'') str));
          (e, h1) = alloc (blank_node 1 name) h;
          h2 = attach r e h1
      in if txt = [] then h2 else (let (t, h3) = createTextNode txt h2 in attach e t h3))"

definition sample_parse_body :: "string \<Rightarrow> hstate \<Rightarrow> ref \<times> hstate" where
  "sample_parse_body markup h =
     (let (b, h1) = alloc (blank_node 1 ''body'') h in (b, sample_parse_into b markup h1))"

definition sample_createHTMLDocument :: "hstate \<Rightarrow> ref \<times> hstate" where
  "sample_createHTMLDocument h =
     (let (d, h1) = alloc ((blank_node 9 [])\<lparr>readyState := ''complete''\<rparr>) h;
          (e, h2) = alloc (blank_node 1 ''html'') h1;
          (hd, h3) = alloc (blank_node 1 ''head'') h2;
          (b, h4) = alloc (blank_node 1 ''body'') h3
      in (d, attach e b (attach e hd (attach d e h4))))"

fun serialize :: "nat \<Rightarrow> hstate \<Rightarrow> ref \<Rightarrow> string" where
  "serialize 0 h r = []"
| "serialize (Suc k) h r =
     (case objects h r of
        None \<Rightarrow> []
      | Some ob \<Rightarrow>
          if nodeType ob = 1 then
            ''<'' @ localName ob @ ''>'' @ concat (map (serialize k h) (childNodes ob))
            @ ''</'' @ localName ob @ ''>''
          else if nodeType ob = 3 then nodeData ob
          else [])"

fun text_of :: "nat \<Rightarrow> hstate \<Rightarrow> ref \<Rightarrow> string" where
  "text_of 0 h r = []"
| "text_of (Suc k) h r =
     (case objects h r of
        None \<Rightarrow> []
      | Some ob \<Rightarrow>
          if nodeType ob \<in> {3, 4} then nodeData ob
          else if nodeType ob \<in> {1, 11} then concat (map (text_of k h) (childNodes ob))
          else [])"

definition sample_get_textContent :: "hstate \<Rightarrow> ref \<Rightarrow> string option" where
  "sample_get_textContent h r =
     (case objects h r of
        None \<Rightarrow> None
      | Some ob \<Rightarrow>
          if nodeType ob \<in> {1, 11} then Some (text_of (nextRef h) h r)
          else if nodeType ob \<in> {3, 4, 7, 8} then Some (nodeData ob)
          else None)"

definition sample_set_textContent :: "ref \<Rightarrow> string \<Rightarrow> hstate \<Rightarrow> hstate" where
  "sample_set_textContent r v h =
     (if node_type h r \<in> {1, 11} then
        (let h1 = fold detach (child_nodes h r) h
         in if v = [] then h1 else (let (t, h2) = createTextNode v h1 in attach r t h2))
      else if node_type h r \<in> {3, 4, 7, 8} then upd_obj r (\<lambda>ob. ob\<lparr>nodeData := v\<rparr>) h
      else h)"

definition to_lower :: "char \<Rightarrow> char" where
  "to_lower c =
     (if 65 \<le> (of_char c :: nat) \<and> (of_char c :: nat) \<le> 90
      then char_of ((of_char c :: nat) + 32) else c)"

definition sample_host :: host where
  "sample_host =
     \<lparr>host_matches = (\<lambda>h r sel. case parse_selector sel of
                                    None \<Rightarrow> Inl SyntaxError
                                  | Some q \<Rightarrow> Inr (selects q h r)),
      host_querySelectorAll = (\<lambda>h r sel. case parse_selector sel of
                                    None \<Rightarrow> Inl SyntaxError
                                  | Some q \<Rightarrow> Inr (filter (selects q h) (descendants (nextRef h) h r))),
      host_closest = (\<lambda>h r sel. case parse_selector sel of
                                    None \<Rightarrow> Inl SyntaxError
                                  | Some q \<Rightarrow> Inr (closest_walk (nextRef h) q h r)),
      host_parse_body = sample_parse_body,
      host_createHTMLDocument = sample_createHTMLDocument,
      host_get_innerHTML = (\<lambda>h r. concat (map (serialize (nextRef h) h) (child_nodes h r))),
      host_set_innerHTML = (\<lambda>r markup h. sample_parse_into r markup (fold detach (child_nodes h r) h)),
      host_get_textContent = sample_get_textContent,
      host_set_textContent = sample_set_textContent,
      host_attr_name = (\<lambda>name. if name = [] \<or> list_ex is_space name then None
                              else Some (map to_lower name))\<rparr>"

text \<open>
  The sample page. Object 0 is the document (loaded), 1 its root element \<open>div\<close> with
  the three paragraphs 2, 3 and 4 (ids \<open>a\<close>, \<open>b\<close>, \<open>c\<close>; 2 has class \<open>cls\<close> and the
  text child 5), 6 a window, 7 a plain object that is no event target, and 8 a second
  document that is still loading. Instance 0 holds the three paragraphs, instance 1 the
  first two, instance 2 the paragraph 2 and its text, instance 3 the two documents and
  the window, instance 4 is empty.
\<close>

definition para_node :: "string \<Rightarrow> string list \<Rightarrow> ref list \<Rightarrow> hobject" where
  "para_node ident cls cs =
     (blank_node 1 ''p'')\<lparr>parentNode := Some 1, childNodes := cs,
        attributes := [(''id'', ident)], classList := cls\<rparr>"

definition sample_objects :: "ref \<Rightarrow> hobject option" where
  "sample_objects =
     [0 \<mapsto> (blank_node 9 [])\<lparr>childNodes := [1], readyState := ''complete''\<rparr>,
      1 \<mapsto> (blank_node 1 ''div'')\<lparr>parentNode := Some 0, childNodes := [2, 3, 4]\<rparr>,
      2 \<mapsto> para_node ''a'' [''cls''] [5],
      3 \<mapsto> para_node ''b'' [] [],
      4 \<mapsto> para_node ''c'' [] [],
      5 \<mapsto> (text_node ''hi'')\<lparr>parentNode := Some 2\<rparr>,
      6 \<mapsto> blank_node 0 [],
      7 \<mapsto> (blank_node 0 [])\<lparr>eventTarget := False\<rparr>,
      8 \<mapsto> (blank_node 9 [])\<lparr>readyState := ''loading''\<rparr>]"

definition sample_page :: state where
  "sample_page =
     \<lparr>hst = \<lparr>objects = sample_objects, nextRef = 9, document = 0, timers = [], calls = []\<rparr>,
      colls = (\<lambda>c. [])(0 := [2, 3, 4], 1 := [2, 3], 2 := [2, 5], 3 := [0, 8, 6]),
      nextColl = 5\<rparr>"

section \<open>Notions used to state the properties\<close>

text \<open>
  Where each operation puts its content, relative to a target: the parent that
  receives the nodes and the child they are put before (\<open>None\<close>: at the end).
\<close>

definition after_position :: "hstate \<Rightarrow> ref \<Rightarrow> (ref \<times> ref option) option" where
  "after_position h item = map_option (\<lambda>p. (p, nextSibling h item)) (parent_of h item)"

definition before_position :: "hstate \<Rightarrow> ref \<Rightarrow> (ref \<times> ref option) option" where
  "before_position h item = map_option (\<lambda>p. (p, Some item)) (parent_of h item)"

definition append_position :: "hstate \<Rightarrow> ref \<Rightarrow> (ref \<times> ref option) option" where
  "append_position h item = Some (item, None)"

definition prepend_position :: "hstate \<Rightarrow> ref \<Rightarrow> (ref \<times> ref option) option" where
  "prepend_position h item = Some (item, firstChild h item)"

text \<open>
  What one target receives, in the specification's words: the materialized nodes
  themselves when it is the first target visited, a deep clone of each otherwise.
\<close>

definition spec_put ::
  "(hstate \<Rightarrow> ref \<Rightarrow> (ref \<times> ref option) option) \<Rightarrow> ref list \<Rightarrow> ref \<Rightarrow> bool \<Rightarrow> hstate
     \<Rightarrow> error + hstate" where
  "spec_put position nodeArray target original h =
     (case position h target of
        None \<Rightarrow> Inr h
      | Some (par, anchor) \<Rightarrow>
          if original then spec_insert_originals par anchor nodeArray h
          else spec_insert_clones par anchor nodeArray h)"

text \<open>The character data of a text node.\<close>

definition text_data :: "hstate \<Rightarrow> ref \<Rightarrow> string option" where
  "text_data h r =
     (case objects h r of
        None \<Rightarrow> None
      | Some ob \<Rightarrow> if nodeType ob = 3 then Some (nodeData ob) else None)"

text \<open>
  \<open>A\<close> and \<open>B\<close> are child nodes of the element or fragment \<open>P\<close>, \<open>A\<close> before
  \<open>B\<close>, in a tree whose child lists and parent links agree.
\<close>

definition siblings_under ::
  "hstate \<Rightarrow> ref \<Rightarrow> ref \<Rightarrow> ref \<Rightarrow> ref list \<Rightarrow> ref list \<Rightarrow> ref list \<Rightarrow> bool" where
  "siblings_under h P A B pre mid post =
     (isChildNode h (JObj A) \<and> isChildNode h (JObj B) \<and> node_type h P \<in> {1, 11}
      \<and> child_nodes h P = pre @ A # mid @ B # post \<and> distinct (child_nodes h P)
      \<and> list_all (\<lambda>c. parent_of h c = Some P) (child_nodes h P))"

text \<open>
  References are allocated in order: nothing lives at or above \<open>nextRef\<close>, and every
  parent link points below it.
\<close>

definition well_allocated :: "hstate \<Rightarrow> bool" where
  "well_allocated h =
     ((\<forall>r. nextRef h \<le> r \<longrightarrow> objects h r = None)
      \<and> (\<forall>r ob q. objects h r = Some ob \<longrightarrow> parentNode ob = Some q \<longrightarrow> q < nextRef h))"

text \<open>The classes of an object, and of some objects after a call.\<close>

definition class_list :: "hstate \<Rightarrow> ref \<Rightarrow> string list" where
  "class_list h r = (case objects h r of None \<Rightarrow> [] | Some ob \<Rightarrow> classList ob)"

definition classes_after :: "error + cref \<times> state \<Rightarrow> ref list \<Rightarrow> string list list" where
  "classes_after r xs =
     (case r of Inl e \<Rightarrow> [] | Inr (c, s) \<Rightarrow> map (class_list (hst s)) xs)"

text \<open>
  A filter over a list of elements with their indices whose test may raise: the first
  exception ends it.
\<close>

fun filter_list :: "(ref \<Rightarrow> nat \<Rightarrow> error + bool) \<Rightarrow> (ref \<times> nat) list \<Rightarrow> error + ref list" where
  "filter_list cb [] = Inr []"
| "filter_list cb (p # ps) =
     (case cb (fst p) (snd p) of
        Inl e \<Rightarrow> Inl e
      | Inr b \<Rightarrow>
          (case filter_list cb ps of
             Inl e \<Rightarrow> Inl e
           | Inr ys \<Rightarrow> Inr (if b then fst p # ys else ys)))"

text \<open>The members of a collection paired with their indices.\<close>

definition indexed :: "ref list \<Rightarrow> (ref \<times> nat) list" where
  "indexed xs = zip xs [0..<length xs]"

text \<open>The members of the collection a call returned, if it returned one.\<close>

definition result_members :: "error + cref \<times> state \<Rightarrow> ref list option" where
  "result_members r = (case r of Inl e \<Rightarrow> None | Inr (c, s) \<Rightarrow> Some (colls s c))"

definition is_selector :: "matcher \<Rightarrow> bool" where
  "is_selector m = (case m of MStr sel \<Rightarrow> True | _ \<Rightarrow> False)"

text \<open>
  A call that returned gave a collection allocated by the call, and left every
  collection that existed before as it was.
\<close>

definition leaves_collections :: "state \<Rightarrow> error + cref \<times> state \<Rightarrow> bool" where
  "leaves_collections s res =
     (case res of
        Inl e \<Rightarrow> True
      | Inr (r, s') \<Rightarrow>
          nextColl s \<le> r \<and> r < nextColl s'
          \<and> list_all (\<lambda>c. colls s' c = colls s c) [0..<nextColl s])"

definition returned :: "error + 'a \<Rightarrow> bool" where
  "returned res = (case res of Inl e \<Rightarrow> False | Inr r \<Rightarrow> True)"


text \<open>
  The get-or-set accessor as the specification words it: with a value, the set
  operation is applied to every eligible member in turn and the receiver is returned;
  without one, the result is the accessor value of the first eligible member, or the
  default when there is none.
\<close>

definition spec_accessor ::
  "(hstate \<Rightarrow> ref \<Rightarrow> bool) \<Rightarrow> (hstate \<Rightarrow> ref \<Rightarrow> ret) \<Rightarrow> (ref \<Rightarrow> string \<Rightarrow> hstate \<Rightarrow> error + hstate)
     \<Rightarrow> ret \<Rightarrow> cref \<Rightarrow> string option \<Rightarrow> state \<Rightarrow> error + ret \<times> state" where
  "spec_accessor eligible getter setter sentinel this value s =
     (case value of
        Some v \<Rightarrow>
          (case fold_result (\<lambda>item h. if eligible h item then setter item v h else Inr h)
                  (colls s this) (hst s) of
             Inl e \<Rightarrow> Inl e
           | Inr h' \<Rightarrow> Inr (RThis this, s\<lparr>hst := h'\<rparr>))
      | None \<Rightarrow>
          Inr (case filter (eligible (hst s)) (colls s this) of
                 [] \<Rightarrow> sentinel
               | item # rest \<Rightarrow> getter (hst s) item, s))"

text \<open>An optional string as the value an accessor returns.\<close>

definition ret_of :: "ret \<Rightarrow> string option \<Rightarrow> ret" where
  "ret_of absent v = (case v of None \<Rightarrow> absent | Some str \<Rightarrow> RString str)"

text \<open>What a call of an accessor returned, and an attribute of some objects afterwards.\<close>

definition returned_value :: "error + ret \<times> state \<Rightarrow> ret option" where
  "returned_value res = (case res of Inl e \<Rightarrow> None | Inr (r, s) \<Rightarrow> Some r)"

definition attributes_after ::
  "host \<Rightarrow> error + ret \<times> state \<Rightarrow> string \<Rightarrow> ref list \<Rightarrow> string option list" where
  "attributes_after H res name xs =
     (case res of Inl e \<Rightarrow> [] | Inr (r, s) \<Rightarrow> map (\<lambda>x. getAttribute H (hst s) x name) xs)"

text \<open>
  The branches of the constructor for a string, by name: the selector branch of the
  typed and of the legacy variant, and the legacy variant's branch for markup with a
  document as context.
\<close>

definition selector_branch :: "host \<Rightarrow> string \<Rightarrow> arg \<Rightarrow> state \<Rightarrow> error + cref \<times> state" where
  "selector_branch H str context s =
     (case EagleJS H context (AItem (JObj (document (hst s)))) (snd (new_instance s)) of
        Inl e \<Rightarrow> Inl e
      | Inr (c, s2) \<Rightarrow> querySelectorAll H c str s2)"

definition selector_branch_legacy :: "host \<Rightarrow> string \<Rightarrow> arg \<Rightarrow> state \<Rightarrow> error + cref \<times> state" where
  "selector_branch_legacy H str context s =
     (case EagleJS_legacy H context (AItem (JObj (document (hst s)))) (snd (new_instance s)) of
        Inl e \<Rightarrow> Inl e
      | Inr (c, s2) \<Rightarrow> find_legacy H c str s2)"


text \<open>
  The child nodes of the body that the host's parser gives for a string, as far as
  they are DOM items.
\<close>

definition parsed_children :: "host \<Rightarrow> string \<Rightarrow> hstate \<Rightarrow> ref list" where
  "parsed_children H str h =
     (let (body, h') = host_parse_body H str h
      in filter (\<lambda>r. isDOMItem h' (JObj r)) (child_nodes h' body))"


text \<open>The exception a call raised, if it raised one.\<close>

definition raised :: "error + 'a \<Rightarrow> error option" where
  "raised res = (case res of Inl e \<Rightarrow> Some e | Inr r \<Rightarrow> None)"

section \<open>Properties\<close>

lemma refs_of_Nil [simp]: "refs_of [] = []"
  by (simp add: refs_of_def)

lemma refs_of_Cons_JObj [simp]: "refs_of (JObj r # vs) = r # refs_of vs"
  by (simp add: refs_of_def)

lemma refs_of_map_JObj [simp]: "refs_of (map JObj rs) = rs"
  by (induction rs) simp_all

lemma state_colls_same [simp]: "s\<lparr>colls := colls s\<rparr> = s"
  by simp

lemma fun_upd_same_list [simp]: "(f::cref \<Rightarrow> ref list)(c := f c) = f"
  by simp

text \<open>Pushing a value that is already a member, or that is not a DOM item, changes nothing.\<close>

lemma push_single_noop:
  assumes "array_includes (colls s this) x \<or> \<not> isDOMItem (hst s) x"
  shows "push this [x] s = (length (colls s this), s)"
  using assms by (auto simp: push_def)

lemma unshift_single_noop:
  assumes "array_includes (colls s this) x \<or> \<not> isDOMItem (hst s) x"
  shows "unshift this [x] s = (length (colls s this), s)"
  using assms by (auto simp: unshift_def)

subsection \<open>The insertion loop\<close>

lemma forEach_from_on_host:
  "length (colls s c) = n \<Longrightarrow> i \<le> n \<Longrightarrow>
   forEach_from [i..<n] c (\<lambda>item k. on_host (g item)) (a, s) =
     (case fold_result g (drop i (colls s c)) (a, hst s) of
        Inl e \<Rightarrow> Inl e
      | Inr (a', h') \<Rightarrow> Inr (a', s\<lparr>hst := h'\<rparr>))"
proof (induction "n - i" arbitrary: i a s)
  case 0
  then show ?case by simp
next
  case (Suc d)
  then have lt: "i < n" by simp
  have up: "[i..<n] = i # [Suc i..<n]" using lt by (simp add: upt_rec)
  have dr: "drop i (colls s c) = colls s c ! i # drop (Suc i) (colls s c)"
    using lt Suc.prems(1) by (simp add: Cons_nth_drop_Suc)
  show ?case
  proof (cases "g (colls s c ! i) (a, hst s)")
    case (Inl e)
    then show ?thesis using lt Suc.prems(1) by (simp add: up dr on_host_def)
  next
    case (Inr r)
    obtain a1 h1 where r: "r = (a1, h1)" by (cases r)
    have "forEach_from [Suc i..<n] c (\<lambda>item k. on_host (g item)) (a1, s\<lparr>hst := h1\<rparr>) =
          (case fold_result g (drop (Suc i) (colls (s\<lparr>hst := h1\<rparr>) c)) (a1, hst (s\<lparr>hst := h1\<rparr>)) of
             Inl e \<Rightarrow> Inl e
           | Inr (a', h') \<Rightarrow> Inr (a', s\<lparr>hst := h1\<rparr>\<lparr>hst := h'\<rparr>))"
      using Suc.hyps(2) Suc.prems lt by (intro Suc.hyps(1)) simp_all
    then show ?thesis using lt Suc.prems(1) Inr r
      by (simp add: up dr on_host_def split: sum.splits prod.splits)
  qed
qed

lemma forEach_on_host:
  "forEach c (\<lambda>item k. on_host (g item)) (a, s) =
     (case fold_result g (colls s c) (a, hst s) of
        Inl e \<Rightarrow> Inl e
      | Inr (a', h') \<Rightarrow> Inr (a', s\<lparr>hst := h'\<rparr>))"
  using forEach_from_on_host [of s c "length (colls s c)" 0 g a] by (simp add: forEach_def)

lemma distribute_step_pair:
  "distribute_step eligible put item (first, h) =
     (if eligible h item then
        (case put item first h of Inl e \<Rightarrow> Inl e | Inr h' \<Rightarrow> Inr (False, h'))
      else Inr (first, h))"
  by (simp add: distribute_step_def)

lemma distribute_step_False:
  "fold_result (distribute_step eligible put) items (False, h) =
     (case fold_result (\<lambda>t h'. if eligible h' t then put t False h' else Inr h') items h of
        Inl e \<Rightarrow> Inl e
      | Inr h' \<Rightarrow> Inr (False, h'))"
  by (induction items arbitrary: h) (auto simp: distribute_step_pair split: sum.splits)

lemma distribute_step_True:
  "fold_result (distribute_step eligible put) items (True, h) =
     (case dropWhile (\<lambda>t. \<not> eligible h t) items of
        [] \<Rightarrow> Inr (True, h)
      | t # ts \<Rightarrow>
          (case put t True h of
             Inl e \<Rightarrow> Inl e
           | Inr h1 \<Rightarrow>
               (case fold_result (\<lambda>t h'. if eligible h' t then put t False h' else Inr h') ts h1 of
                  Inl e \<Rightarrow> Inl e
                | Inr h' \<Rightarrow> Inr (False, h'))))"
  by (induction items) (auto simp: distribute_step_pair distribute_step_False split: sum.splits)

lemma distribute_refines:
  "distribute eligible put this nodes s = spec_insertion eligible put this nodes s"
proof -
  obtain nodeArray h1 where m: "materialize nodes (hst s) = (nodeArray, h1)"
    by (cases "materialize nodes (hst s)")
  show ?thesis
  proof (cases "dropWhile (\<lambda>t. \<not> eligible h1 t) (rev (colls s this))")
    case Nil
    show ?thesis
      by (simp add: distribute_def spec_insertion_def spec_distribution_def slice_def
          new_instance_def reverse_def forEach_on_host distribute_step_True m Nil Let_def)
  next
    case (Cons t ts)
    show ?thesis
      by (simp add: distribute_def spec_insertion_def spec_distribution_def slice_def
          new_instance_def reverse_def forEach_on_host distribute_step_True m Cons Let_def
          split: sum.split)
  qed
qed

lemma insert_nodes_True:
  "insert_nodes True par anchor nodeArray h = spec_insert_originals par anchor nodeArray h"
  by (induction nodeArray arbitrary: h) (auto simp: spec_insert_originals_def split: sum.splits)

lemma insert_nodes_False:
  "insert_nodes False par anchor nodeArray h = spec_insert_clones par anchor nodeArray h"
  by (induction nodeArray arbitrary: h) (auto simp: spec_insert_clones_def split: sum.splits)

lemma first_visited_is_last_eligible:
  "dropWhile (\<lambda>t. \<not> P t) (rev xs) = t # ts \<Longrightarrow> filter P xs \<noteq> [] \<and> t = last (filter P xs)"
proof (induction xs rule: rev_induct)
  case Nil
  then show ?case by simp
next
  case (snoc x xs)
  then show ?case by (cases "P x") auto
qed

subsection \<open>Inserting a text node after each of two siblings\<close>

lemma not_ancestor_of_childless:
  assumes "\<And>r ob. objects h r = Some ob \<Longrightarrow> parentNode ob \<noteq> Some n" and "x \<noteq> n"
  shows "\<not> inclusive_ancestor k h n x"
  using assms(2)
proof (induction k arbitrary: x)
  case 0
  then show ?case by simp
next
  case (Suc k)
  show ?case
  proof (cases "parent_of h x")
    case None
    then show ?thesis using Suc.prems by simp
  next
    case (Some q)
    then have "q \<noteq> n" using assms(1) by (auto simp: parent_of_def split: option.splits)
    then show ?thesis using Suc Some by simp
  qed
qed

lemma insertBefore_leaf:
  assumes n: "objects h n = Some ob" "nodeType ob \<in> {1, 3, 4, 7, 8}" "parentNode ob = None"
    and P: "objects h P = Some p" "nodeType p \<in> {1, 11}" "n \<noteq> P"
    and childless: "\<And>r ob'. objects h r = Some ob' \<Longrightarrow> parentNode ob' \<noteq> Some n"
    and anchor: "anchor = None \<or> (\<exists>c. anchor = Some c \<and> parent_of h c = Some P \<and> c \<noteq> n)"
  shows "insertBefore P n anchor h =
           Inr (h\<lparr>objects := (objects h)(n \<mapsto> ob\<lparr>parentNode := Some P\<rparr>,
                                          P \<mapsto> p\<lparr>childNodes := insert_at anchor n (childNodes p)\<rparr>)\<rparr>)"
proof -
  have anc: "\<not> inclusive_ancestor (nextRef h) h n P"
    using childless P(3) by (intro not_ancestor_of_childless) auto
  have nt: "node_type h n = nodeType ob" and pt: "node_type h P = nodeType p"
    using n(1) P(1) by (simp_all add: node_type_def)
  have c1: "nodeType p \<in> {1, 9, 11}" and c2: "nodeType p \<noteq> 9"
    and c3: "nodeType ob \<in> {1, 3, 4, 7, 8, 10, 11}" and c4: "nodeType ob \<noteq> 10"
    using n(2) P(2) by auto
  have c5: "\<not> (case anchor of None \<Rightarrow> False | Some c \<Rightarrow> parent_of h c \<noteq> Some P)"
    using anchor by auto
  have err: "insertion_error h P n anchor = None"
    unfolding insertion_error_def Let_def nt pt
    using anc c1 c2 c3 c4 c5 by (simp only: if_False if_True not_True_eq_False not_not simp_thms)
  have ref: "(if anchor = Some n then nextSibling h n else anchor) = anchor"
    using anchor by auto
  have nt0: "nodeType ob \<noteq> 0" "nodeType ob \<noteq> 11" using n(2) by auto
  have det: "detach n h = h" using n by (simp add: detach_def parent_of_def)
  show ?thesis
    using nt0 P(3) n(1) P(1)
    by (simp add: insertBefore_def nt err ref det place_def upd_obj_def insert_at_def)
qed


lemma cloneNode_leaf:
  assumes "objects h n = Some ob" "nodeType ob \<noteq> 0" "childNodes ob = []" "0 < nextRef h"
  shows "cloneNode n True h =
           Inr (nextRef h,
                h\<lparr>objects := (objects h)(nextRef h \<mapsto> copy_of ob), nextRef := Suc (nextRef h)\<rparr>)"
proof -
  obtain k where k: "nextRef h = Suc k" using assms(4) by (cases "nextRef h") auto
  show ?thesis using assms(1-3) by (simp add: cloneNode_def node_type_def k)
qed

lemma dropWhile_at:
  "r \<notin> set xs \<Longrightarrow> dropWhile (\<lambda>c. c \<noteq> r) (xs @ r # ys) = r # ys"
  by (induction xs) auto

lemma takeWhile_at:
  "r \<notin> set xs \<Longrightarrow> takeWhile (\<lambda>c. c \<noteq> r) (xs @ r # ys) = xs"
  by (induction xs) auto

lemma nextSibling_split:
  assumes "parent_of h r = Some P" "child_nodes h P = xs @ r # ys" "r \<notin> set xs"
  shows "nextSibling h r = (case ys of [] \<Rightarrow> None | z # _ \<Rightarrow> Some z)"
  using assms by (simp add: nextSibling_def dropWhile_at split: list.splits)

lemma insert_at_after:
  assumes "distinct (xs @ r # ys)"
  shows "insert_at (case ys of [] \<Rightarrow> None | z # _ \<Rightarrow> Some z) n (xs @ r # ys) = xs @ r # n # ys"
proof (cases ys)
  case Nil
  then show ?thesis by (simp add: insert_at_def)
next
  case (Cons z zs)
  have "z \<notin> set (xs @ [r])" using assms Cons by auto
  then have "takeWhile (\<lambda>c. c \<noteq> z) ((xs @ [r]) @ z # zs) = xs @ [r]"
    and "dropWhile (\<lambda>c. c \<noteq> z) ((xs @ [r]) @ z # zs) = z # zs"
    by (rule takeWhile_at, rule dropWhile_at)
  then show ?thesis using Cons by (simp add: insert_at_def)
qed

lemma after_put_original_leaf:
  assumes item: "parent_of h item = Some P"
    and P: "objects h P = Some p" "nodeType p \<in> {1, 11}" "childNodes p = xs @ item # ys"
      "distinct (childNodes p)" "\<forall>c\<in>set (childNodes p). parent_of h c = Some P"
    and n: "objects h n = Some ob" "nodeType ob \<in> {1, 3, 4, 7, 8}" "parentNode ob = None" "n \<noteq> P"
    and childless: "\<And>r ob'. objects h r = Some ob' \<Longrightarrow> parentNode ob' \<noteq> Some n"
  shows "after_put [n] item True h =
           Inr (h\<lparr>objects := (objects h)(n \<mapsto> ob\<lparr>parentNode := Some P\<rparr>,
                                          P \<mapsto> p\<lparr>childNodes := xs @ item # n # ys\<rparr>)\<rparr>)"
proof -
  have cn: "child_nodes h P = xs @ item # ys" using P(1,3) by (simp add: child_nodes_def)
  have nx: "nextSibling h item = (case ys of [] \<Rightarrow> None | z # _ \<Rightarrow> Some z)"
    using item cn P(3,4) by (intro nextSibling_split) auto
  have pn: "parent_of h n = None" using n(1,3) by (simp add: parent_of_def)
  have anchor: "(case ys of [] \<Rightarrow> None | z # _ \<Rightarrow> Some z) = None \<or>
      (\<exists>c. (case ys of [] \<Rightarrow> None | z # _ \<Rightarrow> Some z) = Some c \<and> parent_of h c = Some P \<and> c \<noteq> n)"
    using P(3,5) pn by (cases ys) auto
  have ins: "insert_at (case ys of [] \<Rightarrow> None | z # _ \<Rightarrow> Some z) n (childNodes p)
               = xs @ item # n # ys"
    using P(3,4) by (simp add: insert_at_after)
  show ?thesis
    using insertBefore_leaf [OF n(1,2,3) P(1,2) n(4) childless anchor]
    by (simp add: after_put_def item nx ins)
qed

lemma after_put_clone_leaf:
  assumes item: "parent_of h item = Some P"
    and P: "objects h P = Some p" "nodeType p \<in> {1, 11}" "childNodes p = xs @ item # ys"
      "distinct (childNodes p)" "\<forall>c\<in>set (childNodes p). parent_of h c = Some P"
    and m: "objects h m = Some om" "nodeType om \<in> {1, 3, 4, 7, 8}" "childNodes om = []"
    and fresh: "objects h (nextRef h) = None" "0 < nextRef h"
      "\<And>r ob'. objects h r = Some ob' \<Longrightarrow> parentNode ob' \<noteq> Some (nextRef h)"
  shows "after_put [m] item False h =
           Inr (h\<lparr>objects := (objects h)(nextRef h \<mapsto> (copy_of om)\<lparr>parentNode := Some P\<rparr>,
                                          P \<mapsto> p\<lparr>childNodes := xs @ item # nextRef h # ys\<rparr>),
                  nextRef := Suc (nextRef h)\<rparr>)"
proof -
  let ?c = "nextRef h"
  let ?h1 = "h\<lparr>objects := (objects h)(?c \<mapsto> copy_of om), nextRef := Suc ?c\<rparr>"
  have cP: "?c \<noteq> P" using fresh(1) P(1) by auto
  have cl: "cloneNode m True h = Inr (?c, ?h1)"
    using m fresh(2) by (intro cloneNode_leaf) auto
  have cn: "child_nodes h P = xs @ item # ys" using P(1,3) by (simp add: child_nodes_def)
  have nx: "nextSibling h item = (case ys of [] \<Rightarrow> None | z # _ \<Rightarrow> Some z)"
    using item cn P(3,4) by (intro nextSibling_split) auto
  have par: "parent_of ?h1 c = Some P" if "c \<in> set (childNodes p)" for c
  proof -
    have "parent_of h c = Some P" using P(5) that by auto
    moreover have "c \<noteq> ?c" using calculation fresh(1) by (auto simp: parent_of_def)
    ultimately show ?thesis by (simp add: parent_of_def)
  qed
  have neq: "c \<noteq> ?c" if "c \<in> set (childNodes p)" for c
    using P(5) that fresh(1) by (auto simp: parent_of_def)
  have anchor: "(case ys of [] \<Rightarrow> None | z # _ \<Rightarrow> Some z) = None \<or>
      (\<exists>c. (case ys of [] \<Rightarrow> None | z # _ \<Rightarrow> Some z) = Some c \<and> parent_of ?h1 c = Some P \<and> c \<noteq> ?c)"
    using P(3) par neq by (cases ys) auto
  have ins: "insert_at (case ys of [] \<Rightarrow> None | z # _ \<Rightarrow> Some z) ?c (childNodes p)
               = xs @ item # ?c # ys"
    using P(3,4) by (simp add: insert_at_after)
  have o1: "objects ?h1 ?c = Some (copy_of om)" by simp
  have o2: "nodeType (copy_of om) \<in> {1, 3, 4, 7, 8}" using m(2) by (simp add: copy_of_def)
  have o3: "parentNode (copy_of om) = None" by (simp add: copy_of_def)
  have o4: "objects ?h1 P = Some p" using cP P(1) by simp
  have childless: "\<And>r ob'. objects ?h1 r = Some ob' \<Longrightarrow> parentNode ob' \<noteq> Some ?c"
    using fresh(3) by (auto simp: copy_of_def split: if_splits)
  show ?thesis
    using insertBefore_leaf [OF o1 o2 o3 o4 P(2) cP childless anchor] cP
    by (simp add: after_put_def item nx ins cl fun_upd_twist)
qed


lemma after_text_two_siblings:
  assumes coll: "colls s this = [A, B]"
    and elig: "isChildNode (hst s) (JObj A)" "isChildNode (hst s) (JObj B)"
    and P: "objects (hst s) P = Some p" "nodeType p \<in> {1, 11}"
      "childNodes p = pre @ A # mid @ B # post" "distinct (childNodes p)"
      "\<forall>c\<in>set (childNodes p). parent_of (hst s) c = Some P"
    and fresh: "\<forall>r\<ge>nextRef (hst s). objects (hst s) r = None"
    and parents: "\<forall>r ob q. objects (hst s) r = Some ob \<longrightarrow> parentNode ob = Some q
                    \<longrightarrow> q < nextRef (hst s)"
  shows "after this [CStr x] s =
           Inr (this,
                s\<lparr>hst := (hst s)
                       \<lparr>objects := (objects (hst s))
                          (nextRef (hst s) \<mapsto> (text_node x)\<lparr>parentNode := Some P\<rparr>,
                           Suc (nextRef (hst s)) \<mapsto> (text_node x)\<lparr>parentNode := Some P\<rparr>,
                           P \<mapsto> p\<lparr>childNodes :=
                                   pre @ A # Suc (nextRef (hst s)) # mid @ B # nextRef (hst s) # post\<rparr>),
                        nextRef := Suc (Suc (nextRef (hst s)))\<rparr>,
                  colls := (colls s)(nextColl s := [B, A]),
                  nextColl := Suc (nextColl s)\<rparr>)"
proof -
  let ?h = "hst s"
  let ?t = "nextRef ?h"
  let ?tx = "(text_node x)\<lparr>parentNode := Some P\<rparr>"
  let ?p2 = "p\<lparr>childNodes := (pre @ A # mid) @ B # ?t # post\<rparr>"
  define h1 where "h1 = ?h\<lparr>objects := (objects ?h)(?t \<mapsto> text_node x), nextRef := Suc ?t\<rparr>"
  define h2 where "h2 = h1\<lparr>objects := (objects h1)(?t \<mapsto> ?tx, P \<mapsto> ?p2)\<rparr>"
  have tN: "objects ?h ?t = None" using fresh by simp
  have tP: "?t \<noteq> P" using tN P(1) by auto
  have Pt: "P < ?t"
  proof (rule ccontr)
    assume "\<not> P < ?t"
    then have "objects ?h P = None" using fresh by simp
    then show False using P(1) by simp
  qed
  have parA: "parent_of ?h A = Some P" and parB: "parent_of ?h B = Some P"
    using P(3,5) by auto
  have tA: "?t \<noteq> A" and tB: "?t \<noteq> B"
    using tN parA parB by (auto simp: parent_of_def)
  have mat: "materialize [CStr x] ?h = ([?t], h1)"
    by (simp add: createTextNode_def h1_def)
  have o1: "objects h1 r = (if r = ?t then Some (text_node x) else objects ?h r)" for r
    by (simp add: h1_def)
  have n1: "nextRef h1 = Suc ?t" by (simp add: h1_def)
  have o2: "objects h2 r = (if r = P then Some ?p2 else if r = ?t then Some ?tx else objects ?h r)" for r
    by (simp add: h2_def o1)
  have n2: "nextRef h2 = Suc ?t" by (simp add: h2_def n1)
  \<comment> \<open>the first target visited is B\<close>
  have eB: "after_eligible h1 B"
    using elig(2) parB tB
    by (simp add: after_eligible_def isChildNode_def isNode_def node_type_of_def node_type_def
        parent_of_def o1)
  have step1: "after_put [?t] B True h1 = Inr h2"
    unfolding h2_def
  proof (rule after_put_original_leaf [where xs = "pre @ A # mid" and ys = post and p = p])
    show "parent_of h1 B = Some P" using parB tB by (simp add: parent_of_def o1)
    show "objects h1 P = Some p" using tP P(1) by (simp add: o1)
    show "nodeType p \<in> {1, 11}" by (rule P(2))
    show "childNodes p = (pre @ A # mid) @ B # post" using P(3) by simp
    show "distinct (childNodes p)" by (rule P(4))
    show "\<forall>c\<in>set (childNodes p). parent_of h1 c = Some P"
      using P(5) tN by (auto simp: parent_of_def o1)
    show "objects h1 ?t = Some (text_node x)" by (simp add: o1)
    show "nodeType (text_node x) \<in> {1, 3, 4, 7, 8}" by (simp add: text_node_def)
    show "parentNode (text_node x) = None" by (simp add: text_node_def)
    show "?t \<noteq> P" by (rule tP)
    show "\<And>r ob'. objects h1 r = Some ob' \<Longrightarrow> parentNode ob' \<noteq> Some ?t"
      using parents by (auto simp: text_node_def o1 split: if_splits)
  qed
  \<comment> \<open>the second target visited is A\<close>
  have eA: "after_eligible h2 A"
    using elig(1) parA tA P(1)
    by (auto simp: after_eligible_def isChildNode_def isNode_def node_type_of_def node_type_def
        parent_of_def o2)
  have step2: "after_put [?t] A False h2 =
      Inr (h2\<lparr>objects := (objects h2)(nextRef h2 \<mapsto> (copy_of ?tx)\<lparr>parentNode := Some P\<rparr>,
                    P \<mapsto> ?p2\<lparr>childNodes := pre @ A # nextRef h2 # (mid @ B # ?t # post)\<rparr>),
                  nextRef := Suc (nextRef h2)\<rparr>)"
  proof (rule after_put_clone_leaf [where xs = pre and ys = "mid @ B # ?t # post"])
    show "parent_of h2 A = Some P" using parA tA P(1) by (auto simp: parent_of_def o2)
    show "objects h2 P = Some ?p2" by (simp add: o2)
    show "nodeType ?p2 \<in> {1, 11}" using P(2) by simp
    show "childNodes ?p2 = pre @ A # mid @ B # ?t # post" by simp
    have "?t \<notin> set (childNodes p)" using P(5) tN by (auto simp: parent_of_def)
    then show "distinct (childNodes ?p2)" using P(3,4) by auto
    have "parent_of h2 c = Some P" if c: "c \<in> set (childNodes p)" for c
    proof -
      have pc: "parent_of ?h c = Some P" using P(5) c by auto
      then have "c \<noteq> ?t" using tN by (auto simp: parent_of_def)
      then show ?thesis using pc P(1) by (cases "c = P") (auto simp: parent_of_def o2)
    qed
    moreover have "parent_of h2 ?t = Some P" using tP by (simp add: parent_of_def o2)
    ultimately show "\<forall>c\<in>set (childNodes ?p2). parent_of h2 c = Some P"
      using P(3) by auto
    show "objects h2 ?t = Some ?tx" using tP by (simp add: o2)
    show "nodeType ?tx \<in> {1, 3, 4, 7, 8}" by (simp add: text_node_def)
    show "childNodes ?tx = []" by (simp add: text_node_def)
    show "objects h2 (nextRef h2) = None" using fresh P(1) Pt by (simp add: o2 n2)
    show "0 < nextRef h2" by (simp add: n2)
    show "parentNode ob' \<noteq> Some (nextRef h2)" if r: "objects h2 r = Some ob'" for r ob'
    proof -
      consider "r = P" | "r \<noteq> P" "r = ?t" | "r \<noteq> P" "r \<noteq> ?t" by blast
      then show ?thesis
      proof cases
        case 1
        then have "ob' = ?p2" using r by (simp add: o2)
        moreover have "parentNode p \<noteq> Some (Suc ?t)" using parents P(1) by fastforce
        ultimately show ?thesis by (simp add: n2)
      next
        case 2
        then have "ob' = ?tx" using r by (simp add: o2)
        then show ?thesis using Pt by (simp add: n2)
      next
        case 3
        then have "objects ?h r = Some ob'" using r by (simp add: o2)
        then have "parentNode ob' \<noteq> Some (Suc ?t)" using parents by fastforce
        then show ?thesis by (simp add: n2)
      qed
    qed
  qed
  have dw: "dropWhile (\<lambda>t. \<not> after_eligible h1 t) (rev (colls s this)) = [B, A]"
    using eB by (simp add: coll)
  have cp: "copy_of ?tx = text_node x"
    by (simp add: copy_of_def text_node_def)
  have fin: "h2\<lparr>objects := (objects h2)(nextRef h2 \<mapsto> (text_node x)\<lparr>parentNode := Some P\<rparr>,
                    P \<mapsto> ?p2\<lparr>childNodes := pre @ A # nextRef h2 # (mid @ B # ?t # post)\<rparr>),
                  nextRef := Suc (nextRef h2)\<rparr>
             = ?h\<lparr>objects := (objects ?h)(?t \<mapsto> ?tx, Suc ?t \<mapsto> ?tx,
                     P \<mapsto> p\<lparr>childNodes := pre @ A # Suc ?t # mid @ B # ?t # post\<rparr>),
                   nextRef := Suc (Suc ?t)\<rparr>"
    using tP by (auto simp: h2_def h1_def fun_eq_iff)
  have sd: "spec_distribution after_eligible (after_put [?t]) (colls s this) h1 =
      Inr (?h\<lparr>objects := (objects ?h)(?t \<mapsto> ?tx, Suc ?t \<mapsto> ?tx,
                     P \<mapsto> p\<lparr>childNodes := pre @ A # Suc ?t # mid @ B # ?t # post\<rparr>),
                   nextRef := Suc (Suc ?t)\<rparr>)"
    unfolding spec_distribution_def dw using step1 eA step2 fin by (simp add: cp)
  show ?thesis
    using sd
    by (simp add: after_def distribute_refines spec_insertion_def mat coll
        del: materialize.simps)
qed

subsection \<open>The put functions in the specification's words\<close>

lemma after_put_spec: "after_put nodeArray = spec_put after_position nodeArray"
  by (auto simp: fun_eq_iff after_put_def spec_put_def after_position_def insert_nodes_True
      insert_nodes_False split: option.splits)

lemma before_put_spec: "before_put nodeArray = spec_put before_position nodeArray"
  by (auto simp: fun_eq_iff before_put_def spec_put_def before_position_def insert_nodes_True
      insert_nodes_False split: option.splits)

lemma append_put_spec: "append_put nodeArray = spec_put append_position nodeArray"
  by (auto simp: fun_eq_iff append_put_def spec_put_def append_position_def insert_nodes_True
      insert_nodes_False)

lemma prepend_put_spec: "prepend_put nodeArray = spec_put prepend_position nodeArray"
  by (auto simp: fun_eq_iff prepend_put_def spec_put_def prepend_position_def insert_nodes_True
      insert_nodes_False)

lemma distribute_spec_put:
  assumes "\<And>nodeArray. put nodeArray = spec_put position nodeArray"
  shows "distribute eligible put this nodes s =
           spec_insertion eligible (spec_put position) this nodes s"
proof -
  have "put = spec_put position" using assms by (simp add: fun_eq_iff)
  then show ?thesis by (simp add: distribute_refines)
qed

lemma after_text_two_siblings_observed:
  assumes coll: "colls s this = [A, B]" and alloc: "this < nextColl s"
    and sib: "siblings_under (hst s) P A B pre mid post"
    and wa: "well_allocated (hst s)"
  shows "case after this [CStr x] s of
           Inl e \<Rightarrow> False
         | Inr (r, s') \<Rightarrow>
             r = this \<and> colls s' this = [A, B]
             \<and> child_nodes (hst s') P
                 = pre @ A # Suc (nextRef (hst s)) # mid @ B # nextRef (hst s) # post
             \<and> text_data (hst s') (nextRef (hst s)) = Some x
             \<and> text_data (hst s') (Suc (nextRef (hst s))) = Some x
             \<and> objects (hst s) (nextRef (hst s)) = None
             \<and> objects (hst s) (Suc (nextRef (hst s))) = None"
proof -
  obtain p where p: "objects (hst s) P = Some p"
    using sib by (auto simp: siblings_under_def node_type_def split: option.splits)
  have nt: "nodeType p \<in> {1, 11}" and cn: "childNodes p = pre @ A # mid @ B # post"
    and di: "distinct (childNodes p)"
    and pa: "\<forall>c\<in>set (childNodes p). parent_of (hst s) c = Some P"
    using sib p by (auto simp: siblings_under_def node_type_def child_nodes_def list_all_iff)
  have el: "isChildNode (hst s) (JObj A)" "isChildNode (hst s) (JObj B)"
    using sib by (auto simp: siblings_under_def)
  have fr: "\<forall>r\<ge>nextRef (hst s). objects (hst s) r = None"
    and par: "\<forall>r ob q. objects (hst s) r = Some ob \<longrightarrow> parentNode ob = Some q
                \<longrightarrow> q < nextRef (hst s)"
    using wa by (auto simp: well_allocated_def)
  have tP: "nextRef (hst s) \<noteq> P" "Suc (nextRef (hst s)) \<noteq> P" using fr p by auto
  show ?thesis
    using tP fr coll alloc
    by (simp add: after_text_two_siblings [OF coll el p nt cn di pa fr par] child_nodes_def
        text_data_def text_node_def)
qed

subsection \<open>Facts about the sample page\<close>

lemma sample_page_well_allocated: "well_allocated (hst sample_page)"
  by (auto simp: well_allocated_def sample_page_def sample_objects_def para_node_def
      blank_node_def text_node_def split: if_splits)

lemma isElement_classList: "isElement h (JObj item) = has_prop P_classList h item"
  by (auto simp: isElement_def isNode_def node_type_of_def has_prop_def)

section \<open>Content insertion, push and toggleClass\<close>

text \<open>
  C1. Every content-inserting operation (\<open>after\<close>, \<open>before\<close>, \<open>append\<close>,
  \<open>prepend\<close>, and the legacy \<open>append\<close>) is the specification's distribution: the
  content is materialized once, the targets are visited in reverse order, ineligible
  ones are skipped, the first target visited (the last eligible one in forward order)
  receives the materialized nodes themselves and every later one a deep clone of each.
  In particular, for two sibling targets \<open>[A, B]\<close> and one text input, \<open>after\<close>
  leaves the created text node (the reference \<open>createTextNode\<close> returned) behind
  \<open>B\<close> and a different, newly allocated node with the same text behind \<open>A\<close>.
\<close>

theorem insertion_is_distribution:
  "after this nodes s = spec_insertion after_eligible (spec_put after_position) this nodes s
   \<and> before this nodes s = spec_insertion after_eligible (spec_put before_position) this nodes s
   \<and> append_op this nodes s
       = spec_insertion (has_prop P_querySelector) (spec_put append_position) this nodes s
   \<and> append_legacy this nodes s
       = spec_insertion (\<lambda>h item. isParentNode h (JObj item)) (spec_put append_position) this nodes s
   \<and> prepend this nodes s
       = spec_insertion (has_prop P_querySelector) (spec_put prepend_position) this nodes s
   \<and> (\<forall>t ts. dropWhile (\<lambda>t. \<not> eligible h t) (rev targets) = t # ts
         \<longrightarrow> t = last (filter (eligible h) targets))
   \<and> (colls s this = [A, B] \<and> this < nextColl s \<and> siblings_under (hst s) P A B pre mid post
        \<and> well_allocated (hst s) \<longrightarrow>
       (case after this [CStr x] s of
          Inl e \<Rightarrow> False
        | Inr (r, s') \<Rightarrow>
            r = this
            \<and> child_nodes (hst s') P
                = pre @ A # Suc (fst (createTextNode x (hst s))) # mid @ B
                    # fst (createTextNode x (hst s)) # post
            \<and> text_data (hst s') (fst (createTextNode x (hst s))) = Some x
            \<and> text_data (hst s') (Suc (fst (createTextNode x (hst s)))) = Some x
            \<and> objects (hst s) (Suc (fst (createTextNode x (hst s)))) = None))"
proof -
  have two: "case after this [CStr x] s of
          Inl e \<Rightarrow> False
        | Inr (r, s') \<Rightarrow>
            r = this
            \<and> child_nodes (hst s') P
                = pre @ A # Suc (fst (createTextNode x (hst s))) # mid @ B
                    # fst (createTextNode x (hst s)) # post
            \<and> text_data (hst s') (fst (createTextNode x (hst s))) = Some x
            \<and> text_data (hst s') (Suc (fst (createTextNode x (hst s)))) = Some x
            \<and> objects (hst s) (Suc (fst (createTextNode x (hst s)))) = None"
    if "colls s this = [A, B]" "this < nextColl s" "siblings_under (hst s) P A B pre mid post"
      "well_allocated (hst s)"
    using after_text_two_siblings_observed [OF that, of x]
    by (auto simp: createTextNode_def split: sum.splits prod.splits)
  have last: "t = last (filter (eligible h) targets)"
    if "dropWhile (\<lambda>t. \<not> eligible h t) (rev targets) = t # ts" for t ts
    using first_visited_is_last_eligible [OF that] by simp
  show ?thesis
    using two last
    by (simp add: after_def before_def append_op_def append_legacy_def prepend_def
        distribute_spec_put [OF after_put_spec] distribute_spec_put [OF before_put_spec]
        distribute_spec_put [OF append_put_spec] distribute_spec_put [OF prepend_put_spec])
qed

theorem insertion_is_distribution_witness:
  "after 1 [CStr ''x''] sample_page
     = spec_insertion after_eligible (spec_put after_position) 1 [CStr ''x''] sample_page
   \<and> (case after 1 [CStr ''x''] sample_page of
         Inl e \<Rightarrow> False
       | Inr (r, s') \<Rightarrow>
           r = 1 \<and> child_nodes (hst s') 1 = [2, 10, 3, 9, 4]
           \<and> text_data (hst s') 9 = Some ''x'' \<and> text_data (hst s') 10 = Some ''x'')"
proof -
  have sib: "siblings_under (hst sample_page) 1 2 3 [] [] [4]"
    by code_simp
  have c: "colls sample_page 1 = [2, 3]" "1 < nextColl sample_page"
    by (simp_all add: sample_page_def)
  have n: "fst (createTextNode ''x'' (hst sample_page)) = 9"
    by (simp add: createTextNode_def sample_page_def)
  show ?thesis
    using insertion_is_distribution [of 1 "[CStr ''x'']" sample_page undefined undefined "[]" 2 3 1 "[]" "[]" "[4]" "''x''"]
      sib c sample_page_well_allocated
    by (auto simp: n split: sum.splits prod.splits)
qed

text \<open>
  C2. For child nodes \<open>A\<close> before \<open>B\<close> of one parent, \<open>after('x')\<close> on the
  collection \<open>[A, B]\<close> returns the receiver and leaves the parent's children in the
  order \<open>A, x', B, x\<close> (with whatever stood before, between and behind the two
  targets in place): each target is immediately followed by its own text node.
\<close>

theorem after_keeps_copy_behind_each_target:
  assumes "colls s this = [A, B]" and "this < nextColl s"
    and "siblings_under (hst s) P A B pre mid post"
    and "well_allocated (hst s)"
  shows "case after this [CStr x] s of
           Inl e \<Rightarrow> False
         | Inr (r, s') \<Rightarrow>
             r = this \<and> colls s' this = [A, B]
             \<and> child_nodes (hst s') P
                 = pre @ A # Suc (nextRef (hst s)) # mid @ B # nextRef (hst s) # post
             \<and> text_data (hst s') (nextRef (hst s)) = Some x
             \<and> text_data (hst s') (Suc (nextRef (hst s))) = Some x"
  using after_text_two_siblings_observed [OF assms, of x]
  by (auto split: sum.splits prod.splits)

theorem after_keeps_copy_behind_each_target_witness:
  "case after 1 [CStr ''x''] sample_page of
     Inl e \<Rightarrow> False
   | Inr (r, s') \<Rightarrow>
       r = 1 \<and> colls s' 1 = [2, 3] \<and> child_nodes (hst s') 1 = [2, 10, 3, 9, 4]
       \<and> text_data (hst s') 9 = Some ''x'' \<and> text_data (hst s') 10 = Some ''x''"
proof -
  have sib: "siblings_under (hst sample_page) 1 2 3 [] [] [4]"
    by code_simp
  have c: "colls sample_page 1 = [2, 3]" "1 < nextColl sample_page"
    "nextRef (hst sample_page) = 9"
    by (simp_all add: sample_page_def)
  show ?thesis
    using after_keeps_copy_behind_each_target [OF c(1,2) sib sample_page_well_allocated, of "''x''"]
    by (auto simp: c split: sum.splits prod.splits)
qed

text \<open>
  C5. \<open>push\<close> and \<open>unshift\<close> compare every argument with the receiver as it was
  before the call: an item that is not yet a member and is passed twice in one call is
  added twice, so the collection then holds a duplicate reference.
\<close>

theorem push_repeated_argument:
  assumes "isDOMItem (hst s) (JObj x)" and "x \<notin> set (colls s this)"
  shows "colls (snd (push this [JObj x, JObj x] s)) this = colls s this @ [x, x]
       \<and> colls (snd (unshift this [JObj x, JObj x] s)) this = [x, x] @ colls s this"
  using assms by (simp add: push_def unshift_def array_includes_def)

theorem push_repeated_argument_witness:
  "colls (snd (push 4 [JObj 2, JObj 2] sample_page)) 4 = [2, 2]
   \<and> colls (snd (unshift 4 [JObj 2, JObj 2] sample_page)) 4 = [2, 2]
   \<and> \<not> distinct (colls (snd (push 4 [JObj 2, JObj 2] sample_page)) 4)"
  using push_repeated_argument [of sample_page 2 4]
  by (simp add: sample_page_def sample_objects_def isDOMItem_def para_node_def blank_node_def)

text \<open>
  C10. The legacy \<open>toggleClass\<close> ignores \<open>force\<close>: whatever is passed, the call
  equals the call without it, which is the typed variant's call without \<open>force\<close>
  (every element's class is toggled). The typed variant forwards \<open>force\<close>: on the
  sample page \<open>toggleClass('cls', true)\<close> leaves paragraph 2 with its class, while
  the legacy call removes it.
\<close>

theorem toggleClass_legacy_ignores_force:
  "toggleClass_legacy this name force s = toggleClass_legacy this name None s
   \<and> toggleClass_legacy this name force s = toggleClass this name None s
   \<and> classes_after (toggleClass 0 ''cls'' (Some True) sample_page) [2, 3, 4]
       = [[''cls''], [''cls''], [''cls'']]
   \<and> classes_after (toggleClass_legacy 0 ''cls'' (Some True) sample_page) [2, 3, 4]
       = [[], [''cls''], [''cls'']]"
proof -
  have a: "toggleClass_legacy this name f s = toggleClass this name None s" for f
    by (simp add: toggleClass_legacy_def toggleClass_def isElement_classList)
  have b: "classes_after (toggleClass 0 ''cls'' (Some True) sample_page) [2, 3, 4]
       = [[''cls''], [''cls''], [''cls'']]"
    by code_simp
  have c: "classes_after (toggleClass_legacy 0 ''cls'' (Some True) sample_page) [2, 3, 4]
       = [[], [''cls''], [''cls'']]"
    by code_simp
  show ?thesis using a b c by simp
qed

theorem toggleClass_legacy_ignores_force_witness:
  "toggleClass_legacy 0 ''cls'' (Some False) sample_page
     = toggleClass_legacy 0 ''cls'' None sample_page
   \<and> toggleClass_legacy 0 ''cls'' (Some True) sample_page
     = toggleClass 0 ''cls'' None sample_page"
proof (rule conjI)
  show "toggleClass_legacy 0 ''cls'' (Some False) sample_page
          = toggleClass_legacy 0 ''cls'' None sample_page"
    using toggleClass_legacy_ignores_force [of 0 "''cls''" "Some False" sample_page]
    by (rule conjunct1)
  show "toggleClass_legacy 0 ''cls'' (Some True) sample_page
          = toggleClass 0 ''cls'' None sample_page"
    using toggleClass_legacy_ignores_force [of 0 "''cls''" "Some True" sample_page]
    by (elim conjE)
qed

section \<open>filter and not: the result of the native filter\<close>

lemma array_filter_loop:
  assumes "a \<noteq> this" and "length xs = n" and "colls s this = xs" and "i \<le> n"
  shows "forEach_from [i..<n] this
           (\<lambda>item k acc.
              case cb item k (colls (snd acc) this) of
                Inl e \<Rightarrow> Inl e
              | Inr selected \<Rightarrow>
                  Inr (fst acc,
                       if selected
                       then (snd acc)\<lparr>colls := (colls (snd acc))(a := colls (snd acc) a @ [item])\<rparr>
                       else snd acc))
           ((), s)
         = (case filter_list (\<lambda>x k. cb x k xs) (zip (drop i xs) [i..<n]) of
              Inl e \<Rightarrow> Inl e
            | Inr ys \<Rightarrow> Inr ((), s\<lparr>colls := (colls s)(a := colls s a @ ys)\<rparr>))"
  using assms(3,4)
proof (induction "n - i" arbitrary: i s)
  case 0
  then show ?case using assms(2) by simp
next
  case (Suc d)
  then have lt: "i < n" by simp
  have up: "[i..<n] = i # [Suc i..<n]" using lt by (simp add: upt_rec)
  have dr: "drop i xs = xs ! i # drop (Suc i) xs"
    using lt assms(2) by (simp add: Cons_nth_drop_Suc)
  show ?case
  proof (cases "cb (xs ! i) i xs")
    case (Inl e)
    then show ?thesis using lt assms(2) Suc.prems by (simp add: up dr)
  next
    case (Inr b)
    let ?s' = "if b then s\<lparr>colls := (colls s)(a := colls s a @ [xs ! i])\<rparr> else s"
    have c': "colls ?s' this = xs" using assms(1) Suc.prems by simp
    have ih: "forEach_from [Suc i..<n] this
           (\<lambda>item k acc.
              case cb item k (colls (snd acc) this) of
                Inl e \<Rightarrow> Inl e
              | Inr selected \<Rightarrow>
                  Inr (fst acc,
                       if selected
                       then (snd acc)\<lparr>colls := (colls (snd acc))(a := colls (snd acc) a @ [item])\<rparr>
                       else snd acc))
           ((), ?s')
         = (case filter_list (\<lambda>x k. cb x k xs) (zip (drop (Suc i) xs) [Suc i..<n]) of
              Inl e \<Rightarrow> Inl e
            | Inr ys \<Rightarrow> Inr ((), ?s'\<lparr>colls := (colls ?s')(a := colls ?s' a @ ys)\<rparr>))"
      using Suc.hyps(2) lt c' by (intro Suc.hyps(1)) simp_all
    show ?thesis
      using lt assms(2) Suc.prems Inr ih
      by (cases b) (simp_all add: up dr split: sum.splits)
  qed
qed

lemma array_filter_eq:
  assumes "this < nextColl s"
  shows "array_filter this cb s =
           (case filter_list (\<lambda>x k. cb x k (colls s this)) (indexed (colls s this)) of
              Inl e \<Rightarrow> Inl e
            | Inr ys \<Rightarrow>
                Inr (nextColl s,
                     s\<lparr>colls := (colls s)(nextColl s := ys), nextColl := Suc (nextColl s)\<rparr>))"
proof -
  let ?s1 = "s\<lparr>colls := (colls s)(nextColl s := []), nextColl := Suc (nextColl s)\<rparr>"
  have ne: "nextColl s \<noteq> this" using assms by simp
  have c1: "colls ?s1 this = colls s this" using ne by simp
  show ?thesis
    using array_filter_loop [OF ne refl c1, of 0 cb] ne
    by (simp add: array_filter_def new_instance_def forEach_def indexed_def
        split: sum.splits)
qed

lemma filter_list_Inr:
  assumes "filter_list cb ps = Inr ys"
  shows "ys = map fst (filter (\<lambda>p. cb (fst p) (snd p) = Inr True) ps)
       \<and> list_all (\<lambda>p. cb (fst p) (snd p) = Inr True \<or> cb (fst p) (snd p) = Inr False) ps"
  using assms
proof (induction ps arbitrary: ys)
  case Nil
  then show ?case by simp
next
  case (Cons p ps)
  then show ?case by (auto split: sum.splits if_splits)
qed

lemma not_callback_negates:
  assumes "filter_callback H m h x k xs = Inr b"
  shows "not_callback H m h x k xs = Inr (\<not> b \<and> (is_selector m \<longrightarrow> has_prop P_matches h x))"
  using assms
  by (cases m) (auto simp: filter_callback_def not_callback_def is_selector_def split: if_splits)

lemma not_callback_error:
  "(filter_callback H m h x k xs = Inl e) = (not_callback H m h x k xs = Inl e)"
  by (cases m) (auto simp: filter_callback_def not_callback_def split: if_splits sum.splits)


lemma filter_list_not_callback:
  "filter_list (\<lambda>x k. not_callback H m h x k xs) ps =
     (case filter_list (\<lambda>x k. filter_callback H m h x k xs) ps of
        Inl e \<Rightarrow> Inl e
      | Inr ys \<Rightarrow>
          Inr (map fst
                 (filter (\<lambda>p. filter_callback H m h (fst p) (snd p) xs = Inr False
                              \<and> (is_selector m \<longrightarrow> has_prop P_matches h (fst p))) ps)))"
proof (induction ps)
  case Nil
  then show ?case by simp
next
  case (Cons p ps)
  show ?case
  proof (cases "filter_callback H m h (fst p) (snd p) xs")
    case (Inl e)
    then have "not_callback H m h (fst p) (snd p) xs = Inl e"
      using not_callback_error by blast
    then show ?thesis using Inl by simp
  next
    case (Inr b)
    then show ?thesis
      using Cons not_callback_negates [OF Inr]
      by (cases b) (auto split: sum.splits)
  qed
qed

text \<open>
  C6 (as amended). \<open>filter\<close> and \<open>not\<close> raise the same exceptions (those of the
  host's \<open>matches\<close>); when they return, \<open>filter\<close> keeps the members whose test is
  true, and \<open>not\<close> keeps the members whose \<open>filter\<close> test is false and that, for a
  selector string, are elements. So \<open>not\<close> is the exact complement of \<open>filter\<close>
  for a predicate, a list and a single item, and for a selector among the members
  that expose \<open>matches\<close>; other members are dropped by both.
\<close>

theorem not_complements_filter_on_elements:
  assumes "this < nextColl s"
  shows "case filter_op H this m s of
           Inl e \<Rightarrow> not_op H this m s = Inl e
         | Inr (cf, sf) \<Rightarrow>
             (case not_op H this m s of
                Inl e \<Rightarrow> False
              | Inr (cn, sn) \<Rightarrow>
                  colls sf cf
                    = map fst (filter (\<lambda>p. filter_callback H m (hst s) (fst p) (snd p) (colls s this)
                                             = Inr True)
                                 (indexed (colls s this)))
                  \<and> colls sn cn
                    = map fst (filter (\<lambda>p. filter_callback H m (hst s) (fst p) (snd p) (colls s this)
                                             = Inr False
                                           \<and> (is_selector m \<longrightarrow> has_prop P_matches (hst s) (fst p)))
                                 (indexed (colls s this))))"
proof (cases "filter_list (\<lambda>x k. filter_callback H m (hst s) x k (colls s this)) (indexed (colls s this))")
  case (Inl e)
  then show ?thesis
    by (simp add: filter_op_def not_op_def array_filter_eq [OF assms] filter_list_not_callback)
next
  case (Inr ys)
  then show ?thesis
    using filter_list_Inr [OF Inr]
    by (simp add: filter_op_def not_op_def array_filter_eq [OF assms] filter_list_not_callback)
qed

lemma sample_filter_cls:
  "result_members (filter_op sample_host 2 (MStr ''.cls'') sample_page) = Some [2]"
  by code_simp

lemma sample_not_cls_members:
  "map fst (filter (\<lambda>p. filter_callback sample_host (MStr ''.cls'') (hst sample_page) (fst p) (snd p)
                          (colls sample_page 2) = Inr False
                        \<and> (is_selector (MStr ''.cls'') \<longrightarrow> has_prop P_matches (hst sample_page) (fst p)))
              (indexed (colls sample_page 2))) = []"
  by code_simp

theorem not_complements_filter_on_elements_witness:
  "result_members (not_op sample_host 2 (MStr ''.cls'') sample_page) = Some []"
proof -
  have a: "2 < nextColl sample_page" by (simp add: sample_page_def)
  show ?thesis
    using not_complements_filter_on_elements [OF a, of sample_host "MStr ''.cls''"]
      sample_filter_cls sample_not_cls_members
    by (auto simp: result_members_def split: sum.splits prod.splits)
qed

theorem not_complements_filter_counterexample:
  "colls sample_page 2 = [2, 5]
   \<and> result_members (filter_op sample_host 2 (MStr ''.cls'') sample_page) = Some [2]
   \<and> result_members (not_op sample_host 2 (MStr ''.cls'') sample_page) = Some []"
proof -
  have "colls sample_page 2 = [2, 5]" by (simp add: sample_page_def)
  moreover have "result_members (filter_op sample_host 2 (MStr ''.cls'') sample_page) = Some [2]"
    by code_simp
  moreover have "result_members (not_op sample_host 2 (MStr ''.cls'') sample_page) = Some []"
    by code_simp
  ultimately show ?thesis by simp
qed

section \<open>Projections leave the collections alone\<close>

lemma forEach_from_invariant:
  assumes "\<And>x k acc acc'. I acc \<Longrightarrow> f x k acc = Inr acc' \<Longrightarrow> I acc'"
    and "I acc" and "forEach_from ks c f acc = Inr acc'"
  shows "I acc'"
  using assms(2,3)
proof (induction ks arbitrary: acc)
  case Nil
  then show ?case by simp
next
  case (Cons k ks)
  show ?case
  proof (cases "k < length (colls (snd acc) c)")
    case True
    then obtain acc1 where s: "f (colls (snd acc) c ! k) k acc = Inr acc1"
      and r: "forEach_from ks c f acc1 = Inr acc'"
      using Cons.prems(2) by (auto split: sum.splits)
    have "I acc1" using assms(1) Cons.prems(1) s by blast
    then show ?thesis using Cons.IH r by blast
  next
    case False
    then show ?thesis using Cons by simp
  qed
qed

lemma forEach_from_total:
  assumes "\<And>x k acc. returned (f x k acc)"
  shows "returned (forEach_from ks c f acc)"
proof (induction ks arbitrary: acc)
  case Nil
  then show ?case by (simp add: returned_def)
next
  case (Cons k ks)
  show ?case
  proof (cases "f (colls (snd acc) c ! k) k acc")
    case (Inl e)
    then show ?thesis using assms [of "colls (snd acc) c ! k" k acc] by (simp add: returned_def)
  next
    case (Inr acc1)
    then show ?thesis using Cons [of acc1] Cons [of acc] by simp
  qed
qed

lemma project_frame:
  assumes "project this related s = Inr (e, s')"
  shows "e = nextColl s \<and> nextColl s' = Suc (nextColl s)
       \<and> (\<forall>c. c \<noteq> nextColl s \<longrightarrow> colls s' c = colls s c)"
proof -
  let ?s1 = "s\<lparr>colls := (colls s)(nextColl s := []), nextColl := Suc (nextColl s)\<rparr>"
  let ?I = "\<lambda>acc. nextColl (snd acc) = Suc (nextColl s)
              \<and> (\<forall>c. c \<noteq> nextColl s \<longrightarrow> colls (snd acc) c = colls s c)"
  let ?f = "\<lambda>item (k::nat) acc.
              case related item (hst (snd acc)) of
                Inl err \<Rightarrow> Inl err
              | Inr (vs, h) \<Rightarrow> Inr (fst acc, snd (push (nextColl s) vs ((snd acc)\<lparr>hst := h\<rparr>)))"
  obtain acc' where run: "forEach this ?f ((), ?s1) = Inr acc'" and res: "e = nextColl s" "s' = snd acc'"
    using assms by (auto simp: project_def new_instance_def split: sum.splits)
  have step: "?I acc2" if "?I acc1" "?f x k acc1 = Inr acc2" for x k acc1 acc2
    using that by (auto simp: push_def Let_def split: sum.splits prod.splits)
  have "?I acc'"
    using forEach_from_invariant [of ?I ?f "((), ?s1)" _ this acc'] step run
    unfolding forEach_def by (simp (no_asm_use)) blast
  then show ?thesis using res by simp
qed

lemma project_leaves:
  "leaves_collections s (project this related s)"
proof (cases "project this related s")
  case (Inl e)
  then show ?thesis by (simp add: leaves_collections_def)
next
  case (Inr r)
  obtain e s' where r: "r = (e, s')" by (cases r)
  show ?thesis
    using project_frame [OF Inr [unfolded r]] Inr r
    by (simp add: leaves_collections_def list_all_iff)
qed

lemma array_filter_leaves:
  assumes "this < nextColl s"
  shows "leaves_collections s (array_filter this cb s)"
  by (simp add: array_filter_eq [OF assms] leaves_collections_def list_all_iff split: sum.splits)

lemma optional_filter_leaves:
  assumes "leaves_collections s res"
  shows "leaves_collections s (optional_filter H flt res)"
proof (cases res)
  case (Inl e)
  then show ?thesis by (simp add: optional_filter_def leaves_collections_def)
next
  case (Inr r)
  obtain e s1 where r: "r = (e, s1)" by (cases r)
  have a: "nextColl s \<le> e" "e < nextColl s1" "\<forall>c<nextColl s. colls s1 c = colls s c"
    using assms Inr r by (auto simp: leaves_collections_def list_all_iff)
  show ?thesis
  proof (cases flt)
    case None
    then show ?thesis using assms Inr r by (simp add: optional_filter_def)
  next
    case (Some f)
    have "leaves_collections s1 (filter_op H e (MStr f) s1)"
      unfolding filter_op_def using a(2) by (rule array_filter_leaves)
    then show ?thesis
      using a Inr r Some
      by (auto simp: optional_filter_def leaves_collections_def list_all_iff split: sum.splits)
  qed
qed

lemma project_total:
  assumes "\<And>item h. returned (related item h)"
  shows "returned (project this related s)"
proof -
  let ?s1 = "s\<lparr>colls := (colls s)(nextColl s := []), nextColl := Suc (nextColl s)\<rparr>"
  let ?f = "\<lambda>item (k::nat) (acc :: unit \<times> state).
              case related item (hst (snd acc)) of
                Inl err \<Rightarrow> Inl err
              | Inr (vs, h) \<Rightarrow> Inr (fst acc, snd (push (nextColl s) vs ((snd acc)\<lparr>hst := h\<rparr>)))"
  have "returned (?f x k acc)" for x k acc
    using assms [of x "hst (snd acc)"] by (auto simp: returned_def split: sum.splits)
  then have "returned (forEach_from ks this ?f acc)" for ks acc
    by (rule forEach_from_total)
  then have "returned (forEach this ?f ((), ?s1))"
    by (simp add: forEach_def)
  then obtain acc' where "forEach this ?f ((), ?s1) = Inr acc'"
    by (auto simp: returned_def split: sum.splits)
  then show ?thesis
    by (simp add: project_def new_instance_def returned_def)
qed

lemma optional_filter_None: "optional_filter H None res = res"
  by (simp add: optional_filter_def split: sum.splits)

text \<open>
  C8. Every projection (\<open>children\<close>, \<open>parent\<close>, \<open>next\<close>, \<open>prev\<close>, \<open>closest\<close>,
  \<open>clone\<close>, \<open>querySelectorAll\<close>, \<open>filter\<close>, \<open>not\<close>) that returns gives a
  collection the call allocated and leaves every collection that existed before, the
  receiver among them, with the same members in the same order. Without a selector
  argument, \<open>children\<close>, \<open>parent\<close>, \<open>next\<close> and \<open>prev\<close> always return.
\<close>

theorem projections_leave_receiver:
  assumes "this < nextColl s"
  shows "leaves_collections s (children H this flt s)
       \<and> leaves_collections s (parent H this flt s)
       \<and> leaves_collections s (next_op H this flt s)
       \<and> leaves_collections s (prev H this flt s)
       \<and> leaves_collections s (closest H this sel s)
       \<and> leaves_collections s (clone this deep s)
       \<and> leaves_collections s (querySelectorAll H this sel s)
       \<and> leaves_collections s (filter_op H this m s)
       \<and> leaves_collections s (not_op H this m s)
       \<and> returned (children H this None s) \<and> returned (parent H this None s)
       \<and> returned (next_op H this None s) \<and> returned (prev H this None s)"
proof -
  have f: "leaves_collections s (filter_op H this m s)" "leaves_collections s (not_op H this m s)"
    unfolding filter_op_def not_op_def using assms by (rule array_filter_leaves)+
  have t: "returned (project this (\<lambda>item h. Inr (g item h, h)) s)" for g :: "ref \<Rightarrow> hstate \<Rightarrow> jsval list"
    by (rule project_total) (simp add: returned_def)
  have r: "returned (children H this None s)" "returned (parent H this None s)"
    "returned (next_op H this None s)" "returned (prev H this None s)"
    by (simp_all add: children_def parent_def next_op_def prev_def optional_filter_None t)
  have p: "leaves_collections s (children H this flt s)"
    "leaves_collections s (parent H this flt s)"
    "leaves_collections s (next_op H this flt s)"
    "leaves_collections s (prev H this flt s)"
    "leaves_collections s (closest H this sel s)"
    "leaves_collections s (clone this deep s)"
    "leaves_collections s (querySelectorAll H this sel s)"
    by (simp_all add: children_def parent_def next_op_def prev_def closest_def clone_def
        querySelectorAll_def optional_filter_leaves project_leaves)
  show ?thesis using f r p by simp
qed

lemma sample_children:
  "result_members (children sample_host 3 None sample_page) = Some [1]"
  by code_simp

theorem projections_leave_receiver_witness:
  "case children sample_host 3 None sample_page of
     Inl e \<Rightarrow> False
   | Inr (r, s') \<Rightarrow> 5 \<le> r \<and> colls s' r = [1] \<and> colls s' 3 = [0, 8, 6]"
proof -
  have a: "3 < nextColl sample_page" "nextColl sample_page = 5" "colls sample_page 3 = [0, 8, 6]"
    by (simp_all add: sample_page_def)
  show ?thesis
    using projections_leave_receiver [OF a(1), of sample_host None] sample_children a(2,3)
    by (auto simp: leaves_collections_def result_members_def list_all_iff returned_def
        split: sum.splits prod.splits)
qed

section \<open>ready registers or schedules the listener\<close>

lemma fold_result_total:
  "fold_result (\<lambda>x acc. Inr (fst acc, F x (snd acc))) xs (u, h) = Inr (u, fold F xs h)"
  by (induction xs arbitrary: h) simp_all

lemma forEach_host_update:
  "forEach c (\<lambda>item k. on_host (\<lambda>(u, h). Inr ((), F item h))) ((), s) =
     Inr ((), s\<lparr>hst := fold F (colls s c) (hst s)\<rparr>)"
proof -
  have "(\<lambda>item. (\<lambda>(u, h). Inr ((), F item h)) :: unit \<times> hstate \<Rightarrow> error + unit \<times> hstate)
          = (\<lambda>item acc. Inr (fst acc, F item (snd acc)))"
    by (simp add: fun_eq_iff)
  then show ?thesis
    using fold_result_total [of F "colls s c" "()" "hst s"]
    by (simp add: forEach_on_host)
qed











section \<open>The accessors get from the first eligible member and set on all\<close>

lemma some_loop_first:
  "snd (some_loop xs (\<lambda>item rv. if P item then (True, g item) else (False, rv)) d) =
     (case filter P xs of [] \<Rightarrow> d | x # rest \<Rightarrow> g x)"
  by (induction xs) simp_all

lemma fold_result_unit:
  "fold_result (\<lambda>item acc. case F item (snd acc) of Inl e \<Rightarrow> Inl e | Inr h' \<Rightarrow> Inr ((), h')) xs ((), h)
     = (case fold_result F xs h of Inl e \<Rightarrow> Inl e | Inr h' \<Rightarrow> Inr ((), h'))"
  by (induction xs arbitrary: h) (simp_all split: sum.splits)

lemma forEach_host_set:
  "forEach c (\<lambda>item k. on_host (\<lambda>(u, h). if eligible h item then
                                              (case setter item h of
                                                 Inl e \<Rightarrow> Inl e
                                               | Inr h' \<Rightarrow> Inr (u, h'))
                                            else Inr (u, h))) ((), s)
     = (case fold_result (\<lambda>item h. if eligible h item then setter item h else Inr h)
               (colls s c) (hst s) of
          Inl e \<Rightarrow> Inl e
        | Inr h' \<Rightarrow> Inr ((), s\<lparr>hst := h'\<rparr>))"
proof -
  have "(\<lambda>item. (\<lambda>(u, h). if eligible h item then
                              (case setter item h of Inl e \<Rightarrow> Inl e | Inr h' \<Rightarrow> Inr (u, h'))
                            else Inr (u, h)) :: unit \<times> hstate \<Rightarrow> error + unit \<times> hstate)
        = (\<lambda>item acc. case (if eligible (snd acc) item then setter item (snd acc) else Inr (snd acc)) of
                          Inl e \<Rightarrow> Inl e | Inr h' \<Rightarrow> Inr ((), h'))"
    by (auto simp: fun_eq_iff)
  then show ?thesis
    using fold_result_unit [of "\<lambda>item h. if eligible h item then setter item h else Inr h" "colls s c" "hst s"]
    by (simp add: forEach_on_host split: sum.splits)
qed

lemma fold_result_Inr:
  "fold_result (\<lambda>item h. if eligible h item then Inr (F item h) else Inr h) xs h
     = Inr (fold (\<lambda>item h. if eligible h item then F item h else h) xs h)"
  by (induction xs arbitrary: h) simp_all

lemma attribute_tests: "has_prop P_setAttribute = has_prop P_getAttribute"
  by (simp add: fun_eq_iff has_prop_def)

lemma attr_spec:
  "attr H this name value s =
     spec_accessor (has_prop P_getAttribute)
       (\<lambda>h item. ret_of RNull (getAttribute H h item name))
       (\<lambda>item v. setAttribute H item name v) RNull this value s"
  by (cases "value")
     (simp_all add: attr_def spec_accessor_def forEach_host_set some_loop_first attribute_tests
        ret_of_def split: sum.splits)

lemma data_key_spec:
  "data H this (Some k) value s =
     spec_accessor (has_prop P_dataset)
       (\<lambda>h item. ret_of RUndefined (map_of (dataset_of h item) (camelCase k)))
       (\<lambda>item v. dataset_set H item (camelCase k) v) RUndefined this value s"
  by (cases "value")
     (simp_all add: data_def spec_accessor_def forEach_host_set some_loop_first ret_of_def
        split: sum.splits)

lemma data_all_spec:
  "data H this None value s =
     spec_accessor (has_prop P_dataset) (\<lambda>h item. RObject (dataset_of h item)) setter
       (RObject []) this None s"
  by (simp add: data_def spec_accessor_def some_loop_first)

lemma html_spec:
  "html H this value s =
     spec_accessor (has_prop P_innerHTML) (\<lambda>h item. RString (host_get_innerHTML H h item))
       (\<lambda>item v h. Inr (host_set_innerHTML H item v h)) (RString []) this value s"
proof (cases "value")
  case None
  have "RString (snd (some_loop xs (\<lambda>item rv. if P item then (True, g item) else (False, rv)) []))
          = (case filter P xs of [] \<Rightarrow> RString [] | x # rest \<Rightarrow> RString (g x))"
    for xs :: "ref list" and P g
    by (simp add: some_loop_first split: list.splits)
  then show ?thesis using None by (simp add: html_def html_with_def spec_accessor_def)
next
  case (Some v)
  then show ?thesis
    by (simp add: html_def html_with_def spec_accessor_def forEach_host_update fold_result_Inr)
qed

lemma text_spec:
  "text_op H this value s =
     spec_accessor (has_prop P_textContent) (\<lambda>h item. ret_of RNull (host_get_textContent H h item))
       (\<lambda>item v h. Inr (host_set_textContent H item v h)) RNull this value s"
  by (cases "value")
     (simp_all add: text_op_def spec_accessor_def forEach_host_update fold_result_Inr
        some_loop_first ret_of_def)


lemma map_of_alist_update: "map_of (alist_update k v ps) k = Some v"
  by (induction ps) simp_all

lemma setAttribute_sets:
  assumes "setAttribute H item name v h = Inr h'" and "has_prop P_getAttribute h x"
    and "item = x \<or> getAttribute H h x name = Some v"
  shows "getAttribute H h' x name = Some v \<and> has_prop P_getAttribute h' x"
  using assms
  by (auto simp: setAttribute_def getAttribute_def has_prop_def node_type_def upd_obj_def
        map_of_alist_update split: option.splits if_splits)

lemma setAttribute_keeps_kind:
  "setAttribute H item name v h = Inr h' \<Longrightarrow> has_prop p h' x = has_prop p h x"
  by (auto simp: setAttribute_def has_prop_def node_type_def upd_obj_def
        split: option.splits if_splits)

lemma set_all_keeps:
  "fold_result (\<lambda>item h. if has_prop P_getAttribute h item then setAttribute H item name v h
                          else Inr h) xs h = Inr h' \<Longrightarrow>
   has_prop P_getAttribute h x \<Longrightarrow> getAttribute H h x name = Some v \<Longrightarrow>
   getAttribute H h' x name = Some v"
proof (induction xs arbitrary: h)
  case Nil
  then show ?case by simp
next
  case (Cons y ys)
  show ?case
  proof (cases "has_prop P_getAttribute h y")
    case False
    then show ?thesis using Cons by simp
  next
    case True
    then obtain h1 where h1: "setAttribute H y name v h = Inr h1"
      and rest: "fold_result (\<lambda>item h. if has_prop P_getAttribute h item
                     then setAttribute H item name v h else Inr h) ys h1 = Inr h'"
      using Cons.prems(1) by (simp split: sum.splits)
    from setAttribute_sets [OF h1 Cons.prems(2)] Cons.prems(3)
    have "getAttribute H h1 x name = Some v" "has_prop P_getAttribute h1 x" by simp_all
    then show ?thesis using Cons.IH [OF rest] by simp
  qed
qed

lemma set_all_sets:
  "fold_result (\<lambda>item h. if has_prop P_getAttribute h item then setAttribute H item name v h
                          else Inr h) xs h = Inr h' \<Longrightarrow>
   x \<in> set xs \<Longrightarrow> has_prop P_getAttribute h x \<Longrightarrow>
   getAttribute H h' x name = Some v"
proof (induction xs arbitrary: h)
  case Nil
  then show ?case by simp
next
  case (Cons y ys)
  show ?case
  proof (cases "has_prop P_getAttribute h y")
    case False
    then have "x \<noteq> y" using Cons.prems(3) by auto
    then show ?thesis using Cons False by simp
  next
    case True
    then obtain h1 where h1: "setAttribute H y name v h = Inr h1"
      and rest: "fold_result (\<lambda>item h. if has_prop P_getAttribute h item
                     then setAttribute H item name v h else Inr h) ys h1 = Inr h'"
      using Cons.prems(1) by (simp split: sum.splits)
    have kind: "has_prop P_getAttribute h1 x"
      using setAttribute_keeps_kind [OF h1] Cons.prems(3) by simp
    show ?thesis
    proof (cases "x = y")
      case True
      from setAttribute_sets [OF h1 Cons.prems(3)] True
      have "getAttribute H h1 x name = Some v" by simp
      then show ?thesis using set_all_keeps [OF rest kind] by simp
    next
      case False
      then have "x \<in> set ys" using Cons.prems(2) by simp
      then show ?thesis using Cons.IH [OF rest _ kind] by simp
    qed
  qed
qed

lemma attr_set_all:
  assumes "attr H this name (Some v) s = Inr (r, s')"
  shows "r = RThis this \<and> colls s' = colls s \<and>
         (\<forall>x \<in> set (colls s this). has_prop P_getAttribute (hst s) x \<longrightarrow>
              getAttribute H (hst s') x name = Some v)"
  using assms set_all_sets [of H name v "colls s this" "hst s" _ _]
  by (auto simp: attr_spec spec_accessor_def split: sum.splits)

lemma sample_attr_get:
  "returned_value (attr sample_host 0 ''id'' None sample_page) = Some (RString ''a'')"
  by code_simp

lemma sample_attr_set:
  "returned_value (attr sample_host 0 ''id'' (Some ''z'') sample_page) = Some (RThis 0) \<and>
   attributes_after sample_host (attr sample_host 0 ''id'' (Some ''z'') sample_page) ''id''
      [2, 3, 4] = [Some ''z'', Some ''z'', Some ''z'']"
  by code_simp


text \<open>
  C7. Each get-or-set accessor (\<open>attr\<close>, \<open>data\<close>, \<open>html\<close>, \<open>text\<close>) is the accessor the
  specification describes: with a value, the set operation runs on every eligible
  member in turn and the receiver is returned; without one, the result is the value of
  the first eligible member, or the default (\<open>null\<close>, \<open>undefined\<close> or \<open>{}\<close>, the empty
  string, \<open>null\<close>) when no member is eligible. After \<open>attr(name, v)\<close> has returned,
  every eligible member carries \<open>v\<close> under \<open>name\<close> and the receiver has the same
  members. On three elements with ids \<open>a\<close>, \<open>b\<close>, \<open>c\<close>, \<open>attr('id')\<close> is \<open>a\<close>, and
  \<open>attr('id', 'z')\<close> returns the receiver with all three ids \<open>z\<close>.
\<close>

theorem accessors_get_or_set:
  "attr H this name value s =
     spec_accessor (has_prop P_getAttribute)
       (\<lambda>h item. ret_of RNull (getAttribute H h item name))
       (\<lambda>item v. setAttribute H item name v) RNull this value s
   \<and> data H this (Some k) value s =
       spec_accessor (has_prop P_dataset)
         (\<lambda>h item. ret_of RUndefined (map_of (dataset_of h item) (camelCase k)))
         (\<lambda>item v. dataset_set H item (camelCase k) v) RUndefined this value s
   \<and> data H this None value s =
       spec_accessor (has_prop P_dataset) (\<lambda>h item. RObject (dataset_of h item))
         (\<lambda>item v. dataset_set H item [] v) (RObject []) this None s
   \<and> html H this value s =
       spec_accessor (has_prop P_innerHTML) (\<lambda>h item. RString (host_get_innerHTML H h item))
         (\<lambda>item v h. Inr (host_set_innerHTML H item v h)) (RString []) this value s
   \<and> text_op H this value s =
       spec_accessor (has_prop P_textContent)
         (\<lambda>h item. ret_of RNull (host_get_textContent H h item))
         (\<lambda>item v h. Inr (host_set_textContent H item v h)) RNull this value s
   \<and> (attr H this name (Some v) s = Inr (r, s') \<longrightarrow>
        r = RThis this \<and> colls s' = colls s \<and>
        (\<forall>x \<in> set (colls s this). has_prop P_getAttribute (hst s) x \<longrightarrow>
             getAttribute H (hst s') x name = Some v))
   \<and> returned_value (attr sample_host 0 ''id'' None sample_page) = Some (RString ''a'')
   \<and> returned_value (attr sample_host 0 ''id'' (Some ''z'') sample_page) = Some (RThis 0)
   \<and> attributes_after sample_host (attr sample_host 0 ''id'' (Some ''z'') sample_page) ''id''
        [2, 3, 4] = [Some ''z'', Some ''z'', Some ''z'']"
  using attr_spec [of H this name "value" s] data_key_spec [of H this k "value" s]
    data_all_spec [of H this "value" s] html_spec [of H this "value" s]
    text_spec [of H this "value" s] attr_set_all [of H this name v s r s']
    sample_attr_get sample_attr_set
  by blast

lemma sample_attr_eligible:
  "colls sample_page 0 = [2, 3, 4]"
  "has_prop P_getAttribute (hst sample_page) 2"
  "has_prop P_getAttribute (hst sample_page) 3"
  "has_prop P_getAttribute (hst sample_page) 4"
  by code_simp+

theorem accessors_get_or_set_witness:
  "case attr sample_host 0 ''id'' (Some ''z'') sample_page of
     Inl e \<Rightarrow> False
   | Inr (r, s') \<Rightarrow>
       r = RThis 0 \<and> colls s' 0 = [2, 3, 4] \<and>
       map (\<lambda>x. getAttribute sample_host (hst s') x ''id'') [2, 3, 4] =
         [Some ''z'', Some ''z'', Some ''z'']"
proof -
  obtain r s' where run: "attr sample_host 0 ''id'' (Some ''z'') sample_page = Inr (r, s')"
    using sample_attr_set by (auto simp: returned_value_def split: sum.splits)
  show ?thesis
    using accessors_get_or_set [of sample_host 0 "''id''" "Some ''z''" sample_page "''k''"
        "''z''" r s'] run sample_attr_eligible
    by simp
qed

section \<open>The test for markup is the regular expression\<close>






section \<open>The constructor on a string\<close>

lemma refs_of_filter_JObj:
  "refs_of (filter P (map JObj xs)) = filter (\<lambda>r. P (JObj r)) xs"
  by (induction xs) (simp_all add: refs_of_def)

lemma EagleJS_html:
  assumes "looks_like_html str"
  shows "EagleJS H (AStr str) context s =
           Inr (nextColl s,
                (snd (new_instance s))\<lparr>hst := snd (host_parse_body H str (hst s)),
                   colls := (colls (snd (new_instance s)))
                              (nextColl s := parsed_children H str (hst s))\<rparr>)"
  using assms
  by (simp add: EagleJS.simps [of H "AStr str" "context" s] new_instance_def push_def Let_def
        parsed_children_def array_includes_def refs_of_filter_JObj split: prod.splits)




lemma EagleJS_legacy_html_other:
  "looks_like_html str \<Longrightarrow> \<not> arg_isDocument (hst s) context \<Longrightarrow>
   EagleJS_legacy H (AStr str) context s = Inr (new_instance s)"
  by (simp add: EagleJS_legacy.simps [of H "AStr str" "context" s] new_instance_def)





lemma sample_markup:
  "looks_like_html ''<b>hi</b>''"
  "parsed_children sample_host ''<b>hi</b>'' (hst sample_page) = [10]"
  "arg_isDocument (hst sample_page) (AItem (JObj 0))"
  by code_simp+




lemma sample_without_document:
  "\<not> arg_isDocument (hst sample_page) (AItem (JObj 1))"
  "raised (selector_branch_legacy sample_host ''<b>hi</b>'' (AItem (JObj 1)) sample_page)
       = Some SyntaxError"
  "raised (selector_branch sample_host ''<b>hi</b>'' (AItem (JObj 1)) sample_page)
       = Some SyntaxError"
  "result_members (EagleJS_legacy sample_host (AStr ''<b>hi</b>'') (AItem (JObj 1)) sample_page)
     = Some []"
  "result_members (EagleJS sample_host (AStr ''<b>hi</b>'') (AItem (JObj 1)) sample_page)
     = Some [10]"
  by code_simp+




text \<open>
  C4 (as amended). Given a string that passes the test for markup and a context that
  is no document, the legacy constructor returns a new, empty collection and touches
  nothing else: it neither parses the string nor queries the context with it. The
  typed constructor parses the string whatever the context is.
\<close>

theorem markup_without_document:
  assumes "looks_like_html str" and "\<not> arg_isDocument (hst s) context"
  shows "EagleJS_legacy H (AStr str) context s = Inr (new_instance s)
         \<and> result_members (EagleJS_legacy H (AStr str) context s) = Some []
         \<and> EagleJS H (AStr str) context s = EagleJS H (AStr str) other s"
  using assms
  by (simp add: EagleJS_legacy_html_other EagleJS_html result_members_def new_instance_def)

theorem markup_without_document_witness:
  "looks_like_html ''<b>hi</b>'' \<and> \<not> arg_isDocument (hst sample_page) (AItem (JObj 1))
   \<and> EagleJS_legacy sample_host (AStr ''<b>hi</b>'') (AItem (JObj 1)) sample_page
       = Inr (new_instance sample_page)
   \<and> colls (snd (new_instance sample_page)) (fst (new_instance sample_page)) = []"
  using markup_without_document [of "''<b>hi</b>''" sample_page "AItem (JObj 1)" sample_host]
    sample_markup(1) sample_without_document(1)
  by (simp add: new_instance_def)

theorem markup_without_document_counterexample:
  "looks_like_html ''<b>hi</b>'' \<and> \<not> arg_isDocument (hst sample_page) (AItem (JObj 1))
   \<and> raised (selector_branch_legacy sample_host ''<b>hi</b>'' (AItem (JObj 1)) sample_page)
       = Some SyntaxError
   \<and> result_members (EagleJS_legacy sample_host (AStr ''<b>hi</b>'') (AItem (JObj 1)) sample_page)
       = Some []
   \<and> raised (selector_branch sample_host ''<b>hi</b>'' (AItem (JObj 1)) sample_page)
       = Some SyntaxError
   \<and> result_members (EagleJS sample_host (AStr ''<b>hi</b>'') (AItem (JObj 1)) sample_page)
       = Some [10]"
  using sample_markup(1) sample_without_document by simp

end
